theory Spec2Isabelle
  imports Main "HOL-Library.Sublist" "HOL-Library.Multiset"
begin

section \<open>Inline citation inserter (frontend/src/utils/citationUtils.ts)\<close>

subsection \<open>Data model\<close>

text \<open>
  An optional numeric field of a citation. The filter of \<open>insertInlineCitations\<close> tests
  \<open>null\<close> and \<open>undefined\<close> separately, so both are kept. Offsets are integers: the
  fractional and non-finite values of a JavaScript number are outside this model.
\<close>

datatype js_number = Undefined | Null | Num int

text \<open>\<open>ICitation\<close>: \<open>{uri, title?, startIndex?, endIndex?}\<close>.\<close>

record ICitation =
  uri :: string
  title :: "string option"
  startIndex :: js_number
  endIndex :: js_number

text \<open>The object built by \<open>{ ...citation, originalIndex: index }\<close>.\<close>

record IndexedCitation = ICitation +
  originalIndex :: nat

subsection \<open>JavaScript primitives used by the function\<close>

text \<open>Decimal rendering of a non-negative integer inside a template literal.\<close>

definition digitChar :: "nat \<Rightarrow> char" where
  "digitChar d = ''0123456789'' ! d"

function toString :: "nat \<Rightarrow> string" where
  "toString n = (if n < 10 then [digitChar n] else toString (n div 10) @ [digitChar (n mod 10)])"
  by pat_completeness auto
termination
  by (relation "measure (\<lambda>n. n)") auto

declare toString.simps [simp del]

text \<open>\<open>ToIntegerOrInfinity\<close> on the values of the model: \<open>undefined\<close> and \<open>null\<close> give 0.\<close>

definition toInteger :: "js_number \<Rightarrow> int" where
  "toInteger v = (case v of Undefined \<Rightarrow> 0 | Null \<Rightarrow> 0 | Num n \<Rightarrow> n)"

text \<open>A relative index of \<open>String.prototype.slice\<close>: negative counts from the end, all clamped.\<close>

definition relIndex :: "int \<Rightarrow> nat \<Rightarrow> nat" where
  "relIndex i len = (if i < 0 then nat (max (int len + i) 0) else min (nat i) len)"

text \<open>\<open>s.slice(start, end)\<close>; an \<open>undefined\<close> end is the length, so \<open>s.slice(start)\<close> is
  \<open>slice s start Undefined\<close>.\<close>

definition slice :: "string \<Rightarrow> js_number \<Rightarrow> js_number \<Rightarrow> string" where
  "slice s start end =
     (let len = length s;
          from = relIndex (toInteger start) len;
          to = (case end of Undefined \<Rightarrow> len | _ \<Rightarrow> relIndex (toInteger end) len)
      in take (to - from) (drop from s))"

text \<open>
  \<open>Array.prototype.sort\<close> with a comparator: the standard requires a stable sort, and for
  a comparator that is a consistent total preorder the result is the one stable ordering.
  It is modelled as stable insertion sort; \<open>x\<close> goes before \<open>y\<close> when \<open>cmp x y \<le> 0\<close>.
\<close>

fun insertBy :: "('a \<Rightarrow> 'a \<Rightarrow> int) \<Rightarrow> 'a \<Rightarrow> 'a list \<Rightarrow> 'a list" where
  "insertBy cmp x [] = [x]"
| "insertBy cmp x (y # ys) = (if cmp x y \<le> 0 then x # y # ys else y # insertBy cmp x ys)"

definition sortBy :: "('a \<Rightarrow> 'a \<Rightarrow> int) \<Rightarrow> 'a list \<Rightarrow> 'a list" where
  "sortBy cmp xs = foldr (insertBy cmp) xs []"

subsection \<open>insertInlineCitations\<close>

text \<open>\<open>.map((citation, index) => ({ ...citation, originalIndex: index }))\<close>\<close>

definition withIndex :: "ICitation \<Rightarrow> nat \<Rightarrow> IndexedCitation" where
  "withIndex c i =
     \<lparr>uri = uri c, title = title c, startIndex = startIndex c, endIndex = endIndex c,
      originalIndex = i\<rparr>"

definition indexed :: "ICitation list \<Rightarrow> IndexedCitation list" where
  "indexed cs = map (\<lambda>i. withIndex (cs ! i) i) [0..<length cs]"

text \<open>The filter predicate: \<open>startIndex\<close> is not null, not undefined, \<open>>= 0\<close> and
  \<open><= content.length\<close>.\<close>

definition validStart :: "string \<Rightarrow> ('a ICitation_scheme) \<Rightarrow> bool" where
  "validStart content c =
     (case startIndex c of
        Undefined \<Rightarrow> False
      | Null \<Rightarrow> False
      | Num n \<Rightarrow> 0 \<le> n \<and> n \<le> int (length content))"

text \<open>The comparator \<open>(a, b) => (b.startIndex ?? 0) - (a.startIndex ?? 0)\<close>.\<close>

definition nullish0 :: "js_number \<Rightarrow> int" where
  "nullish0 v = (case v of Undefined \<Rightarrow> 0 | Null \<Rightarrow> 0 | Num n \<Rightarrow> n)"

definition compareFn :: "IndexedCitation \<Rightarrow> IndexedCitation \<Rightarrow> int" where
  "compareFn a b = nullish0 (startIndex b) - nullish0 (startIndex a)"

text \<open>The template literal of the marker; \<open>\[\<close> and \<open>\]\<close> are the plain brackets.\<close>

definition citationMarker :: "nat \<Rightarrow> string \<Rightarrow> string" where
  "citationMarker citationNumber u =
     ''<sup>[['' @ toString citationNumber @ '']]('' @ u @ '')</sup>''"

text \<open>One round of the loop body.\<close>

definition spliceMarker :: "IndexedCitation \<Rightarrow> string \<Rightarrow> string" where
  "spliceMarker citation result =
     (let insertPosition = startIndex citation;
          citationNumber = originalIndex citation + 1
      in slice result (Num 0) insertPosition
         @ citationMarker citationNumber (uri citation)
         @ slice result insertPosition Undefined)"

definition validCitations :: "string \<Rightarrow> ICitation list \<Rightarrow> IndexedCitation list" where
  "validCitations content cs = filter (validStart content) (indexed cs)"

definition sortedCitations :: "string \<Rightarrow> ICitation list \<Rightarrow> IndexedCitation list" where
  "sortedCitations content cs = sortBy compareFn (validCitations content cs)"

definition insertInlineCitations :: "string \<Rightarrow> ICitation list option \<Rightarrow> string" where
  "insertInlineCitations content citations =
     (case citations of
        None \<Rightarrow> content
      | Some cs \<Rightarrow>
          if length cs = 0 then content
          else if length (validCitations content cs) = 0 then content
          else fold spliceMarker (sortedCitations content cs) content)"

section \<open>Blob SAS service (backend/WebApp.Api/Services/BlobSasService.cs)\<close>

subsection \<open>Exceptions, values of the SDK and the service object\<close>

text \<open>
  The exceptions the code names, and any other one. \<open>RequestFailedException\<close> carries its
  HTTP status.
\<close>

datatype exn =
    ObjectDisposedException
  | InvalidOperationException
  | RequestFailedException int
  | OtherException string

text \<open>What the code reads of a parsed \<open>System.Uri\<close>.\<close>

record Uri =
  Host :: string
  Query :: string
  AbsolutePath :: string

text \<open>What the code reads of a \<open>BlobClient\<close>.\<close>

record BlobClient =
  ClientBlobContainerName :: string
  ClientName :: string
  ClientUri :: string

record UserDelegationKey =
  SignedObjectId :: string
  KeyValue :: string

datatype BlobSasPermissions = Read | Add | Create | Write | Delete

text \<open>
  The \<open>BlobSasBuilder\<close> the code fills in. Times are \<open>DateTimeOffset\<close> values in ticks of
  100 nanoseconds.
\<close>

record BlobSasBuilder =
  BlobContainerName :: string
  BlobName :: string
  Resource :: string
  StartsOn :: int
  ExpiresOn :: int
  Permissions :: "BlobSasPermissions list"

datatype TokenCredential = ChainedTokenCredential | ManagedIdentityCredential

text \<open>
  The world outside the class during one call: the URI parser of the runtime, the clock,
  and the calls of the Azure Storage SDK, each returning its value or the exception it
  throws. \<open>ToUri\<close> is \<open>new BlobUriBuilder(blobClient.Uri) { Sas = ... }.ToUri()\<close> followed by
  the \<open>ToString()\<close> of the caller.
\<close>

record Env =
  TryCreate :: "string \<Rightarrow> Uri option"
  UtcNow :: int
  NewBlobServiceClient :: "string \<Rightarrow> TokenCredential \<Rightarrow> exn + string"
  GetAccountInfo :: "exn + unit"
  GetUserDelegationKey :: "int \<Rightarrow> int \<Rightarrow> exn + UserDelegationKey"
  GetBlobClient :: "string \<Rightarrow> string \<Rightarrow> exn + BlobClient"
  GetUserDelegationKeyAsync :: "int \<Rightarrow> int \<Rightarrow> exn + UserDelegationKey"
  ToSasQueryParameters :: "BlobSasBuilder \<Rightarrow> UserDelegationKey \<Rightarrow> string option \<Rightarrow> exn + string"
  ToUri :: "string \<Rightarrow> string \<Rightarrow> exn + string"

text \<open>The fields of \<open>BlobSasService\<close> (the logger is not modelled).\<close>

record BlobSasService =
  blobServiceClient :: "string option"
  storageAccountName :: "string option"
  sasTokenDuration :: int
  isEnabled :: bool
  disposed :: bool

record Configuration =
  STORAGE_ACCOUNT_NAME :: "string option"
  SAS_TOKEN_DURATION_MINUTES :: "int option"
  ASPNETCORE_ENVIRONMENT :: "string option"

subsection \<open>String operations of the runtime\<close>

text \<open>
  \<open>StringComparison.OrdinalIgnoreCase\<close> compares the upper-cased characters; on the
  characters of this model (bytes) the letters are \<open>a\<close> to \<open>z\<close>.
\<close>

definition toUpperInvariant :: "char \<Rightarrow> char" where
  "toUpperInvariant c =
     (case map_of (zip ''abcdefghijklmnopqrstuvwxyz'' ''ABCDEFGHIJKLMNOPQRSTUVWXYZ'') c of
        None \<Rightarrow> c
      | Some u \<Rightarrow> u)"

definition equalsOrdinalIgnoreCase :: "string \<Rightarrow> string \<Rightarrow> bool" where
  "equalsOrdinalIgnoreCase a b = (map toUpperInvariant a = map toUpperInvariant b)"

fun containsOrdinalIgnoreCase :: "string \<Rightarrow> string \<Rightarrow> bool" where
  "containsOrdinalIgnoreCase [] v = (v = [])"
| "containsOrdinalIgnoreCase (c # s) v =
     (equalsOrdinalIgnoreCase (take (length v) (c # s)) v \<or> containsOrdinalIgnoreCase s v)"

text \<open>\<open>s.TrimStart(c)\<close> and \<open>s.Split(c, 2)\<close>.\<close>

definition TrimStart :: "char \<Rightarrow> string \<Rightarrow> string" where
  "TrimStart c s = dropWhile (\<lambda>x. x = c) s"

definition Split2 :: "char \<Rightarrow> string \<Rightarrow> string list" where
  "Split2 c s =
     (if c \<in> set s then [takeWhile (\<lambda>x. x \<noteq> c) s, tl (dropWhile (\<lambda>x. x \<noteq> c) s)] else [s])"

text \<open>\<open>TimeSpan.FromMinutes\<close>, in ticks.\<close>

definition FromMinutes :: "int \<Rightarrow> int" where
  "FromMinutes m = m * 600000000"

subsection \<open>The constructor\<close>

definition newBlobSasService :: "Env \<Rightarrow> Configuration \<Rightarrow> BlobSasService" where
  "newBlobSasService env configuration =
     (case STORAGE_ACCOUNT_NAME configuration of
        None \<Rightarrow>
          \<lparr>blobServiceClient = None, storageAccountName = None, sasTokenDuration = 0,
           isEnabled = False, disposed = False\<rparr>
      | Some name \<Rightarrow>
          if name = [] then
            \<lparr>blobServiceClient = None, storageAccountName = Some name, sasTokenDuration = 0,
             isEnabled = False, disposed = False\<rparr>
          else
            let durationMinutes =
                  (case SAS_TOKEN_DURATION_MINUTES configuration of None \<Rightarrow> 60 | Some d \<Rightarrow> d);
                duration = FromMinutes durationMinutes;
                endpoint = ''https://'' @ name @ ''.blob.core.windows.net'';
                environment =
                  (case ASPNETCORE_ENVIRONMENT configuration of
                     None \<Rightarrow> ''Production'' | Some e \<Rightarrow> e);
                credential =
                  (if environment = ''Development'' then ChainedTokenCredential
                   else ManagedIdentityCredential);
                st = \<lparr>blobServiceClient = None, storageAccountName = Some name,
                      sasTokenDuration = duration, isEnabled = False, disposed = False\<rparr>
            in case NewBlobServiceClient env endpoint credential of
                 Inl ex \<Rightarrow> st
               | Inr client \<Rightarrow>
                   (case GetAccountInfo env of
                      Inl (RequestFailedException status) \<Rightarrow>
                        st\<lparr>blobServiceClient := Some client, isEnabled := True\<rparr>
                    | Inl ex \<Rightarrow> st\<lparr>blobServiceClient := Some client\<rparr>
                    | Inr accountInfo \<Rightarrow>
                        (case GetUserDelegationKey env (UtcNow env) (UtcNow env + FromMinutes 1) of
                           Inl (RequestFailedException status) \<Rightarrow>
                             st\<lparr>blobServiceClient := Some client, isEnabled := True\<rparr>
                         | Inl ex \<Rightarrow> st\<lparr>blobServiceClient := Some client\<rparr>
                         | Inr testKey \<Rightarrow>
                             st\<lparr>blobServiceClient := Some client, isEnabled := True\<rparr>)))"

subsection \<open>GenerateUserDelegationSasAsync\<close>

text \<open>
  The 403 of \<open>GetUserDelegationKeyAsync\<close> is logged and thrown again, every other exception
  passes through: either way the exception leaves the method.
\<close>

definition GenerateUserDelegationSasAsync :: "BlobSasService \<Rightarrow> Env \<Rightarrow> BlobClient \<Rightarrow> exn + string" where
  "GenerateUserDelegationSasAsync st env blobClient =
     (if disposed st then Inl ObjectDisposedException
      else if blobServiceClient st = None then Inl InvalidOperationException
      else
        let startsOn = UtcNow env;
            expiresOn = startsOn + sasTokenDuration st
        in case GetUserDelegationKeyAsync env startsOn expiresOn of
             Inl ex \<Rightarrow> Inl ex
           | Inr userDelegationKey \<Rightarrow>
               let sasBuilder =
                     \<lparr>BlobContainerName = ClientBlobContainerName blobClient,
                      BlobName = ClientName blobClient,
                      Resource = ''b'',
                      StartsOn = startsOn,
                      ExpiresOn = expiresOn,
                      Permissions = [Read]\<rparr>
               in case ToSasQueryParameters env sasBuilder userDelegationKey (storageAccountName st) of
                    Inl ex \<Rightarrow> Inl ex
                  | Inr sasQueryParameters \<Rightarrow> ToUri env (ClientUri blobClient) sasQueryParameters)"

subsection \<open>AppendSasTokenAsync\<close>

text \<open>The interpolated string \<open>$"{_storageAccountName}.blob.core.windows.net"\<close>; a null
  name prints as the empty string.\<close>

definition expectedHost :: "BlobSasService \<Rightarrow> string" where
  "expectedHost st =
     (case storageAccountName st of None \<Rightarrow> [] | Some name \<Rightarrow> name) @ ''.blob.core.windows.net''"

text \<open>Lines 156 to 176: the path is split, the blob client obtained and the SAS generated.\<close>

definition signBlob :: "BlobSasService \<Rightarrow> Env \<Rightarrow> string \<Rightarrow> Uri \<Rightarrow> exn + string" where
  "signBlob st env blobUri theUri =
     (let pathParts = Split2 CHR ''/'' (TrimStart CHR ''/'' (AbsolutePath theUri))
      in if length pathParts < 2 then Inr blobUri
         else
           let containerName = pathParts ! 0;
               blobName = pathParts ! 1
           in case GetBlobClient env containerName blobName of
                Inl ex \<Rightarrow> Inl ex
              | Inr blobClient \<Rightarrow> GenerateUserDelegationSasAsync st env blobClient)"

text \<open>The body of the \<open>try\<close> block; \<open>theUri\<close> is the variable \<open>uri\<close> of the source.\<close>

definition tryBlock :: "BlobSasService \<Rightarrow> Env \<Rightarrow> string \<Rightarrow> exn + string" where
  "tryBlock st env blobUri =
     (case TryCreate env blobUri of
        None \<Rightarrow> Inr blobUri
      | Some theUri \<Rightarrow>
          if \<not> equalsOrdinalIgnoreCase (Host theUri) (expectedHost st) then Inr blobUri
          else if containsOrdinalIgnoreCase (Query theUri) ''sig='' then Inr blobUri
          else signBlob st env blobUri theUri)"

text \<open>
  The method: the disposal check, the enabled check, then the \<open>try\<close> block under its three
  \<open>catch\<close> clauses (status 403, any other \<open>RequestFailedException\<close>, any other
  exception), each of which returns \<open>blobUri\<close>.
\<close>

definition AppendSasTokenAsync :: "BlobSasService \<Rightarrow> Env \<Rightarrow> string \<Rightarrow> exn + string" where
  "AppendSasTokenAsync st env blobUri =
     (if disposed st then Inl ObjectDisposedException
      else if \<not> isEnabled st \<or> blobServiceClient st = None then Inr blobUri
      else
        case tryBlock st env blobUri of
          Inr result \<Rightarrow> Inr result
        | Inl (RequestFailedException status) \<Rightarrow>
            (if status = 403 then Inr blobUri else Inr blobUri)
        | Inl ex \<Rightarrow> Inr blobUri)"

subsection \<open>Dispose\<close>

definition Dispose :: "BlobSasService \<Rightarrow> BlobSasService" where
  "Dispose st = (if \<not> disposed st then st\<lparr>disposed := True\<rparr> else st)"

section \<open>Reference notions used to state the properties of the inserter\<close>

text \<open>
  The marker of one indexed citation, and the markers due at offset \<open>p\<close> of the original
  text: those of the citations whose \<open>startIndex\<close> is \<open>p\<close>, the later-listed first.
\<close>

definition markerOf :: "IndexedCitation \<Rightarrow> string" where
  "markerOf c = citationMarker (originalIndex c + 1) (uri c)"

definition markersAt :: "IndexedCitation list \<Rightarrow> nat \<Rightarrow> string" where
  "markersAt ics p = concat (map markerOf (rev (filter (\<lambda>c. startIndex c = Num (int p)) ics)))"

text \<open>
  Walking the original, immutable string from offset \<open>p\<close>: before each original character
  come the markers \<open>M\<close> gives for its offset. \<open>weaveFrom\<close> also emits the markers due at
  the end of the string; \<open>weaveBefore\<close> stops before them.
\<close>

fun weaveBefore :: "(nat \<Rightarrow> string) \<Rightarrow> nat \<Rightarrow> string \<Rightarrow> string" where
  "weaveBefore M p [] = []"
| "weaveBefore M p (ch # s) = M p @ ch # weaveBefore M (Suc p) s"

fun weaveFrom :: "(nat \<Rightarrow> string) \<Rightarrow> nat \<Rightarrow> string \<Rightarrow> string" where
  "weaveFrom M p [] = M p"
| "weaveFrom M p (ch # s) = M p @ ch # weaveFrom M (Suc p) s"

text \<open>Every insertion position computed against the original string.\<close>

definition spliceAgainstOriginal :: "string \<Rightarrow> IndexedCitation list \<Rightarrow> string" where
  "spliceAgainstOriginal content ics = weaveFrom (markersAt ics) 0 content"

text \<open>
  The markers due at offset \<open>p\<close>, written with the positions of the input list: the
  citation at zero-based position \<open>i\<close> carries the number \<open>i + 1\<close>.
\<close>

definition numberedMarkersAt :: "ICitation list \<Rightarrow> nat \<Rightarrow> string" where
  "numberedMarkersAt cs p =
     concat (map (\<lambda>i. citationMarker (i + 1) (uri (cs ! i)))
               (rev (filter (\<lambda>i. startIndex (cs ! i) = Num (int p)) [0..<length cs])))"

text \<open>The same markers, restricted to the list positions \<open>ks\<close>.\<close>

definition numberedMarkersIn :: "ICitation list \<Rightarrow> nat \<Rightarrow> nat list \<Rightarrow> string" where
  "numberedMarkersIn cs p ks =
     concat (map (\<lambda>i. citationMarker (i + 1) (uri (cs ! i)))
               (rev (filter (\<lambda>i. startIndex (cs ! i) = Num (int p)) ks)))"

section \<open>Reference notions and example values for the Blob SAS service\<close>

text \<open>
  The names of the parameters of a query string (\<open>?a=1&b=2\<close> has the names \<open>a\<close> and
  \<open>b\<close>): what a parse of the query would look at to find a signature parameter.
\<close>

fun splitOn :: "char \<Rightarrow> string \<Rightarrow> string list" where
  "splitOn c [] = [[]]"
| "splitOn c (x # xs) =
     (if x = c then [] # splitOn c xs
      else (case splitOn c xs of [] \<Rightarrow> [[x]] | p # ps \<Rightarrow> (x # p) # ps))"

definition queryParameterNames :: "string \<Rightarrow> string list" where
  "queryParameterNames q =
     map (takeWhile (\<lambda>c. c \<noteq> CHR ''='')) (splitOn CHR ''&'' (TrimStart CHR ''?'' q))"

text \<open>A URI counts as already signed for the service when it parses and its query contains
  \<open>sig=\<close>, in any letter case.\<close>

definition alreadySigned :: "Env \<Rightarrow> string \<Rightarrow> bool" where
  "alreadySigned env s =
     (case TryCreate env s of
        None \<Rightarrow> False
      | Some theUri \<Rightarrow> containsOrdinalIgnoreCase (Query theUri) ''sig='')"

text \<open>
  An example world: the parser knows a few URIs (a host comes back in lower case, as
  \<open>System.Uri\<close> gives it), every SDK call succeeds, and the SAS URI is the blob client's
  URI, a question mark and the SAS parameters.
\<close>

definition exampleUris :: "(string \<times> Uri) list" where
  "exampleUris =
     [(''https://myaccount.blob.core.windows.net/docs/a.pdf'',
       \<lparr>Host = ''myaccount.blob.core.windows.net'', Query = [], AbsolutePath = ''/docs/a.pdf''\<rparr>),
      (''https://myaccount.blob.core.windows.net/docs/a.pdf?resig=1'',
       \<lparr>Host = ''myaccount.blob.core.windows.net'', Query = ''?resig=1'',
        AbsolutePath = ''/docs/a.pdf''\<rparr>),
      (''https://myaccount.blob.core.windows.net/docs/a.pdf?sv=2024-11-04&sr=b&sp=r&sig=ABC'',
       \<lparr>Host = ''myaccount.blob.core.windows.net'', Query = ''?sv=2024-11-04&sr=b&sp=r&sig=ABC'',
        AbsolutePath = ''/docs/a.pdf''\<rparr>),
      (''https://myaccount.blob.core.windows.net/docs'',
       \<lparr>Host = ''myaccount.blob.core.windows.net'', Query = [], AbsolutePath = ''/docs''\<rparr>),
      (''https://other.blob.core.windows.net/docs/a.pdf'',
       \<lparr>Host = ''other.blob.core.windows.net'', Query = [], AbsolutePath = ''/docs/a.pdf''\<rparr>),
      (''https://myaccount.blob.core.windows.net.evil.example/docs/a.pdf'',
       \<lparr>Host = ''myaccount.blob.core.windows.net.evil.example'', Query = [],
        AbsolutePath = ''/docs/a.pdf''\<rparr>),
      (''https://myaccount.blob.core.windows.net/docs/a.pdf?snapshot=1'',
       \<lparr>Host = ''myaccount.blob.core.windows.net'', Query = ''?snapshot=1'',
        AbsolutePath = ''/docs/a.pdf''\<rparr>)]"

definition exampleEnv :: Env where
  "exampleEnv =
     \<lparr>TryCreate = map_of exampleUris,
      UtcNow = 1000,
      NewBlobServiceClient = (\<lambda>endpoint credential. Inr endpoint),
      GetAccountInfo = Inr (),
      GetUserDelegationKey = (\<lambda>startsOn expiresOn. Inr \<lparr>SignedObjectId = ''oid'', KeyValue = ''key''\<rparr>),
      GetBlobClient = (\<lambda>containerName blobName.
        Inr \<lparr>ClientBlobContainerName = containerName, ClientName = blobName,
             ClientUri = ''https://myaccount.blob.core.windows.net/'' @ containerName @ ''/'' @ blobName\<rparr>),
      GetUserDelegationKeyAsync =
        (\<lambda>startsOn expiresOn. Inr \<lparr>SignedObjectId = ''oid'', KeyValue = ''key''\<rparr>),
      ToSasQueryParameters = (\<lambda>sasBuilder key accountName. Inr ''sv=2024-11-04&sr=b&sp=r&sig=ABC''),
      ToUri = (\<lambda>clientUri sas. Inr (clientUri @ ''?'' @ sas))\<rparr>"

text \<open>The same world when the storage account refuses the delegation key (status 403).\<close>

definition exampleEnvDenied :: Env where
  "exampleEnvDenied =
     exampleEnv\<lparr>GetUserDelegationKeyAsync := (\<lambda>startsOn expiresOn. Inl (RequestFailedException 403))\<rparr>"

text \<open>A service built by the constructor for the account \<open>MyAccount\<close>, no duration configured.\<close>

definition exampleConfiguration :: Configuration where
  "exampleConfiguration =
     \<lparr>STORAGE_ACCOUNT_NAME = Some ''MyAccount'', SAS_TOKEN_DURATION_MINUTES = None,
      ASPNETCORE_ENVIRONMENT = None\<rparr>"

definition exampleService :: BlobSasService where
  "exampleService = newBlobSasService exampleEnv exampleConfiguration"

section \<open>Properties of the inserter\<close>

subsection \<open>Auxiliary facts\<close>

lemma slice_prefix: "0 \<le> n \<Longrightarrow> n \<le> int (length s) \<Longrightarrow> slice s (Num 0) (Num n) = take (nat n) s"
  by (auto simp: slice_def relIndex_def toInteger_def Let_def min_def nat_le_iff)

lemma slice_suffix: "0 \<le> n \<Longrightarrow> n \<le> int (length s) \<Longrightarrow> slice s (Num n) Undefined = drop (nat n) s"
  by (auto simp: slice_def relIndex_def toInteger_def Let_def min_def nat_le_iff)

lemma spliceMarker_valid:
  assumes "startIndex c = Num n" "0 \<le> n" "n \<le> int (length s)"
  shows "spliceMarker c s = take (nat n) s @ markerOf c @ drop (nat n) s"
  using assms by (simp add: spliceMarker_def Let_def slice_prefix slice_suffix markerOf_def)

lemma validStart_iff: "validStart s c \<longleftrightarrow> (\<exists>n. startIndex c = Num n \<and> 0 \<le> n \<and> n \<le> int (length s))"
  by (auto simp: validStart_def split: js_number.splits)

lemma insertBy_insort: "insertBy compareFn x ys = insort_key (\<lambda>c. - nullish0 (startIndex c)) x ys"
  by (induction ys) (auto simp: compareFn_def)

lemma sortBy_sort_key: "sortBy compareFn xs = sort_key (\<lambda>c. - nullish0 (startIndex c)) xs"
  by (induction xs) (auto simp: sortBy_def insertBy_insort)

lemma fold_splice_append:
  "\<forall>c\<in>set xs. validStart a c \<Longrightarrow> fold spliceMarker xs (a @ b) = fold spliceMarker xs a @ b"
proof (induction xs arbitrary: a)
  case Nil
  then show ?case by simp
next
  case (Cons x xs)
  from Cons.prems obtain n where n: "startIndex x = Num n" "0 \<le> n" "n \<le> int (length a)"
    by (auto simp: validStart_iff)
  have 1: "spliceMarker x (a @ b) = spliceMarker x a @ b"
    using n by (simp add: spliceMarker_valid)
  have "length a \<le> length (spliceMarker x a)"
    using n by (simp add: spliceMarker_valid)
  then have "\<forall>c\<in>set xs. validStart (spliceMarker x a) c"
    using Cons.prems by (fastforce simp: validStart_iff)
  then show ?case using Cons.IH 1 by simp
qed

lemma weaveFrom_weaveBefore: "weaveFrom M p s = weaveBefore M p s @ M (p + length s)"
  by (induction s arbitrary: p) auto

lemma weaveBefore_append:
  "weaveBefore M p (a @ b) = weaveBefore M p a @ weaveBefore M (p + length a) b"
  by (induction a arbitrary: p) auto

lemma weaveFrom_append:
  "weaveFrom M p (a @ b) = weaveBefore M p a @ weaveFrom M (p + length a) b"
  by (induction a arbitrary: p) auto

lemma weaveBefore_cong:
  "(\<And>q. p \<le> q \<Longrightarrow> q < p + length s \<Longrightarrow> M q = M' q) \<Longrightarrow> weaveBefore M p s = weaveBefore M' p s"
  by (induction s arbitrary: p) auto

lemma weaveFrom_cong:
  "(\<And>q. p \<le> q \<Longrightarrow> q \<le> p + length s \<Longrightarrow> M q = M' q) \<Longrightarrow> weaveFrom M p s = weaveFrom M' p s"
  by (induction s arbitrary: p) auto

lemma weaveFrom_tail_empty:
  "(\<And>q. p < q \<Longrightarrow> M q = []) \<Longrightarrow> weaveFrom M p s = M p @ s"
  by (induction s arbitrary: p rule: rev_induct) (auto simp: weaveFrom_weaveBefore weaveBefore_append)

lemma markersAt_Nil: "markersAt [] p = []"
  by (simp add: markersAt_def)

lemma markersAt_Cons:
  "markersAt (x # xs) p = markersAt xs p @ (if startIndex x = Num (int p) then markerOf x else [])"
  by (simp add: markersAt_def)

lemma weaveFrom_no_markers: "weaveFrom (\<lambda>p. []) p s = s"
  by (induction s arbitrary: p) auto

lemma fold_splice_weave:
  assumes "sorted (map (\<lambda>c. - nullish0 (startIndex c)) xs)"
    and "\<forall>c\<in>set xs. validStart s c"
  shows "fold spliceMarker xs s = weaveFrom (markersAt xs) 0 s"
  using assms
proof (induction xs arbitrary: s)
  case Nil
  show ?case by (simp add: markersAt_Nil [abs_def] weaveFrom_no_markers)
next
  case (Cons x xs)
  from Cons.prems obtain n where n: "startIndex x = Num n" "0 \<le> n" "n \<le> int (length s)"
    by (auto simp: validStart_iff)
  define p where "p = nat n"
  have p: "p \<le> length s" "n = int p" using n by (simp_all add: p_def)
  have below: "\<forall>c\<in>set xs. validStart (take p s) c"
  proof
    fix c assume c: "c \<in> set xs"
    with Cons.prems obtain m where m: "startIndex c = Num m" "0 \<le> m"
      by (auto simp: validStart_iff)
    from Cons.prems(1) c have "nullish0 (startIndex c) \<le> nullish0 (startIndex x)" by auto
    with m n have "m \<le> n" by (simp add: nullish0_def)
    with m p show "validStart (take p s) c" by (auto simp: validStart_iff)
  qed
  have srt: "sorted (map (\<lambda>c. - nullish0 (startIndex c)) xs)" using Cons.prems(1) by simp
  have "fold spliceMarker (x # xs) s = fold spliceMarker xs (take p s @ (markerOf x @ drop p s))"
    using n by (simp add: spliceMarker_valid p_def)
  also have "\<dots> = fold spliceMarker xs (take p s) @ markerOf x @ drop p s"
    using below by (rule fold_splice_append)
  also have "\<dots> = weaveFrom (markersAt xs) 0 (take p s) @ markerOf x @ drop p s"
    using Cons.IH [OF srt below] by simp
  also have "\<dots> = weaveBefore (markersAt xs) 0 (take p s) @ markersAt xs p @ markerOf x @ drop p s"
    using p by (simp add: weaveFrom_weaveBefore min_def)
  also have "weaveBefore (markersAt xs) 0 (take p s) = weaveBefore (markersAt (x # xs)) 0 (take p s)"
    using p n by (intro weaveBefore_cong) (simp add: markersAt_Cons)
  also have "markersAt xs p @ markerOf x @ drop p s = weaveFrom (markersAt (x # xs)) p (drop p s)"
  proof -
    have "\<And>q. p < q \<Longrightarrow> markersAt (x # xs) q = []"
    proof -
      fix q assume q: "p < q"
      have "filter (\<lambda>c. startIndex c = Num (int q)) (x # xs) = []"
      proof (rule filter_False, rule ballI)
        fix c assume "c \<in> set (x # xs)"
        then have "validStart (take p s) c \<or> c = x" using below by auto
        then show "\<not> startIndex c = Num (int q)" using q p n
          by (auto simp: validStart_iff)
      qed
      then show "markersAt (x # xs) q = []" by (simp add: markersAt_def)
    qed
    then have "weaveFrom (markersAt (x # xs)) p (drop p s) = markersAt (x # xs) p @ drop p s"
      by (rule weaveFrom_tail_empty)
    then show ?thesis using n p by (simp add: markersAt_Cons)
  qed
  also have "weaveBefore (markersAt (x # xs)) 0 (take p s) @ weaveFrom (markersAt (x # xs)) p (drop p s)
      = weaveFrom (markersAt (x # xs)) 0 s"
    using weaveFrom_append [of "markersAt (x # xs)" 0 "take p s" "drop p s"] p by (simp add: min_def)
  finally show ?case .
qed

lemma sortedCitations_sort_key:
  "sortedCitations content cs = sort_key (\<lambda>c. - nullish0 (startIndex c)) (validCitations content cs)"
  by (simp add: sortedCitations_def sortBy_sort_key)

lemma sortedCitations_valid: "\<forall>c\<in>set (sortedCitations content cs). validStart content c"
  by (simp add: sortedCitations_sort_key validCitations_def)

lemma markersAt_sortedCitations:
  "markersAt (sortedCitations content cs) p = markersAt (validCitations content cs) p"
proof -
  let ?k = "\<lambda>c::IndexedCitation. - nullish0 (startIndex c)"
  let ?v = "validCitations content cs"
  have eq: "\<And>c. c \<in> set ?v \<Longrightarrow> (startIndex c = Num (int p)) = (?k c = - int p)"
    by (auto simp: validCitations_def validStart_iff nullish0_def)
  have "filter (\<lambda>c. startIndex c = Num (int p)) (sort_key ?k ?v)
        = filter (\<lambda>c. ?k c = - int p) (sort_key ?k ?v)"
    by (rule filter_cong) (simp_all add: eq)
  also have "\<dots> = filter (\<lambda>c. ?k c = - int p) ?v"
    by (rule sort_key_stable)
  also have "\<dots> = filter (\<lambda>c. startIndex c = Num (int p)) ?v"
    by (rule filter_cong) (simp_all add: eq)
  finally show ?thesis by (simp add: markersAt_def sortedCitations_sort_key)
qed

lemma markersAt_validCitations:
  "p \<le> length content \<Longrightarrow> markersAt (filter (validStart content) ics) p = markersAt ics p"
proof -
  assume p: "p \<le> length content"
  have "filter (\<lambda>c. startIndex c = Num (int p)) (filter (validStart content) ics)
        = filter (\<lambda>c. startIndex c = Num (int p)) ics"
    unfolding filter_filter using p by (intro filter_cong) (auto simp: validStart_iff)
  then show ?thesis by (simp add: markersAt_def)
qed

lemma loop_weave_valid:
  "fold spliceMarker (sortedCitations content cs) content
   = weaveFrom (markersAt (validCitations content cs)) 0 content"
proof -
  have "sorted (map (\<lambda>c. - nullish0 (startIndex c)) (sortedCitations content cs))"
    by (simp add: sortedCitations_sort_key)
  then have "fold spliceMarker (sortedCitations content cs) content
        = weaveFrom (markersAt (sortedCitations content cs)) 0 content"
    using sortedCitations_valid by (rule fold_splice_weave)
  then show ?thesis by (simp add: markersAt_sortedCitations [abs_def])
qed

lemma insertInlineCitations_loop:
  "insertInlineCitations content (Some cs) = fold spliceMarker (sortedCitations content cs) content"
proof (cases "validCitations content cs = []")
  case True
  then show ?thesis by (simp add: insertInlineCitations_def sortedCitations_def sortBy_def)
next
  case False
  then have "cs \<noteq> []" by (auto simp: validCitations_def indexed_def)
  with False show ?thesis by (simp add: insertInlineCitations_def)
qed

lemma insertInlineCitations_weave_valid:
  "insertInlineCitations content (Some cs) = weaveFrom (markersAt (validCitations content cs)) 0 content"
  by (simp add: insertInlineCitations_loop loop_weave_valid)

lemma insertInlineCitations_weave:
  "insertInlineCitations content (Some cs) = weaveFrom (markersAt (indexed cs)) 0 content"
  unfolding insertInlineCitations_weave_valid validCitations_def
  by (rule weaveFrom_cong) (simp add: markersAt_validCitations)

lemma markerOf_withIndex: "markerOf (withIndex c i) = citationMarker (i + 1) (uri c)"
  by (simp add: markerOf_def withIndex_def)

lemma startIndex_withIndex: "startIndex (withIndex c i) = startIndex c"
  by (simp add: withIndex_def)

lemma validStart_withIndex: "validStart content (withIndex c i) = validStart content c"
  by (simp add: validStart_def withIndex_def)

lemma markersAt_indexed: "markersAt (indexed cs) p = numberedMarkersAt cs p"
  by (simp add: markersAt_def indexed_def numberedMarkersAt_def filter_map rev_map
      comp_def startIndex_withIndex markerOf_withIndex)

lemma subseq_weaveFrom: "subseq s (weaveFrom M p s)"
  by (induction s arbitrary: p) (auto intro: list_emb_prefix subseq_Cons2 list_emb_append2)

lemma length_fold_splice:
  "\<forall>c\<in>set xs. validStart s c \<Longrightarrow>
   length (fold spliceMarker xs s) = length s + sum_list (map (\<lambda>c. length (markerOf c)) xs)"
proof (induction xs arbitrary: s)
  case Nil
  then show ?case by simp
next
  case (Cons x xs)
  from Cons.prems obtain n where n: "startIndex x = Num n" "0 \<le> n" "n \<le> int (length s)"
    by (auto simp: validStart_iff)
  have len: "length (spliceMarker x s) = length s + length (markerOf x)"
    using n by (simp add: spliceMarker_valid)
  then have "\<forall>c\<in>set xs. validStart (spliceMarker x s) c"
    using Cons.prems by (fastforce simp: validStart_iff)
  from Cons.IH [OF this] len show ?case by simp
qed

lemma mset_sortedCitations: "mset (sortedCitations content cs) = mset (validCitations content cs)"
  by (simp add: sortedCitations_sort_key)

lemma validCitations_all:
  "list_all (validStart content) cs \<Longrightarrow> validCitations content cs = indexed cs"
  by (auto simp: validCitations_def indexed_def list_all_length validStart_withIndex filter_map comp_def)

subsection \<open>Claim C1: descending splices equal insertion against the original text\<close>

text \<open>
  C1. When every citation of the list has a defined start offset within
  \<open>0 \<le> startIndex \<le> length content\<close>, the loop of \<open>insertInlineCitations\<close> runs over
  all the citations in descending \<open>startIndex\<close> order, and its result is the string obtained
  by computing every insertion position against the original, immutable content: walking
  the original text, each citation's marker stands right before the original character at
  its \<open>startIndex\<close> (or at the end of the text when \<open>startIndex\<close> is the length). The
  original characters are all kept, in order: the content is a subsequence of the result,
  and the result is longer than the content by exactly the lengths of the markers.
\<close>

theorem insertInlineCitations_against_original:
  assumes "list_all (validStart content) cs"
  shows "insertInlineCitations content (Some cs) = fold spliceMarker (sortedCitations content cs) content
    \<and> mset (sortedCitations content cs) = mset (indexed cs)
    \<and> sorted_wrt (\<lambda>a b. nullish0 (startIndex b) \<le> nullish0 (startIndex a)) (sortedCitations content cs)
    \<and> insertInlineCitations content (Some cs) = spliceAgainstOriginal content (indexed cs)
    \<and> subseq content (insertInlineCitations content (Some cs))
    \<and> length (insertInlineCitations content (Some cs))
        = length content + sum_list (map (\<lambda>c. length (markerOf c)) (indexed cs))"
proof -
  have all: "validCitations content cs = indexed cs"
    using assms by (rule validCitations_all)
  have perm: "mset (sortedCitations content cs) = mset (indexed cs)"
    by (simp add: mset_sortedCitations all)
  have "sorted (map (\<lambda>c. - nullish0 (startIndex c)) (sortedCitations content cs))"
    by (simp add: sortedCitations_sort_key)
  then have desc: "sorted_wrt (\<lambda>a b. nullish0 (startIndex b) \<le> nullish0 (startIndex a))
      (sortedCitations content cs)"
    by (simp add: sorted_map)
  have ref: "insertInlineCitations content (Some cs) = spliceAgainstOriginal content (indexed cs)"
    by (simp add: insertInlineCitations_weave spliceAgainstOriginal_def)
  have sub: "subseq content (insertInlineCitations content (Some cs))"
    by (simp add: insertInlineCitations_weave subseq_weaveFrom)
  have "length (fold spliceMarker (sortedCitations content cs) content)
      = length content + sum_list (map (\<lambda>c. length (markerOf c)) (sortedCitations content cs))"
    using sortedCitations_valid by (rule length_fold_splice)
  also have "sum_list (map (\<lambda>c. length (markerOf c)) (sortedCitations content cs))
      = sum_list (map (\<lambda>c. length (markerOf c)) (indexed cs))"
  proof -
    have "mset (map (\<lambda>c. length (markerOf c)) (sortedCitations content cs))
        = mset (map (\<lambda>c. length (markerOf c)) (indexed cs))"
      using perm by simp
    then have "sum_mset (mset (map (\<lambda>c. length (markerOf c)) (sortedCitations content cs)))
        = sum_mset (mset (map (\<lambda>c. length (markerOf c)) (indexed cs)))"
      by (rule arg_cong)
    then show ?thesis by (simp only: sum_mset_sum_list)
  qed
  finally have len: "length (insertInlineCitations content (Some cs))
        = length content + sum_list (map (\<lambda>c. length (markerOf c)) (indexed cs))"
    by (simp add: insertInlineCitations_loop)
  show ?thesis
    by (intro conjI) (rule insertInlineCitations_loop, rule perm, rule desc, rule ref, rule sub, rule len)
qed

text \<open>
  The example of the specification: offsets 5 and 20 into a 30-character string. The loop
  splices at 20 first, then at 5, and both markers stand at their offsets of the original.
\<close>

theorem insertInlineCitations_against_original_witness:
  "list_all (validStart ''abcdefghijklmnopqrstuvwxyz0123'')
     [\<lparr>uri = ''x'', title = None, startIndex = Num 5, endIndex = Undefined\<rparr>,
      \<lparr>uri = ''y'', title = None, startIndex = Num 20, endIndex = Undefined\<rparr>]
   \<and> sortedCitations ''abcdefghijklmnopqrstuvwxyz0123''
     [\<lparr>uri = ''x'', title = None, startIndex = Num 5, endIndex = Undefined\<rparr>,
      \<lparr>uri = ''y'', title = None, startIndex = Num 20, endIndex = Undefined\<rparr>]
     = [\<lparr>uri = ''y'', title = None, startIndex = Num 20, endIndex = Undefined, originalIndex = 1\<rparr>,
        \<lparr>uri = ''x'', title = None, startIndex = Num 5, endIndex = Undefined, originalIndex = 0\<rparr>]
   \<and> insertInlineCitations ''abcdefghijklmnopqrstuvwxyz0123''
     (Some [\<lparr>uri = ''x'', title = None, startIndex = Num 5, endIndex = Undefined\<rparr>,
            \<lparr>uri = ''y'', title = None, startIndex = Num 20, endIndex = Undefined\<rparr>])
     = ''abcde<sup>[[1]](x)</sup>fghijklmnopqrst<sup>[[2]](y)</sup>uvwxyz0123''"
proof -
  let ?content = "''abcdefghijklmnopqrstuvwxyz0123''"
  let ?cs = "[\<lparr>uri = ''x'', title = None, startIndex = Num 5, endIndex = Undefined\<rparr>,
      \<lparr>uri = ''y'', title = None, startIndex = Num 20, endIndex = Undefined\<rparr>]"
  have h: "list_all (validStart ?content) ?cs"
    by (simp add: validStart_def)
  have s: "sortedCitations ?content ?cs
     = [\<lparr>uri = ''y'', title = None, startIndex = Num 20, endIndex = Undefined, originalIndex = 1\<rparr>,
        \<lparr>uri = ''x'', title = None, startIndex = Num 5, endIndex = Undefined, originalIndex = 0\<rparr>]"
    by code_simp
  have r: "spliceAgainstOriginal ?content (indexed ?cs)
     = ''abcde<sup>[[1]](x)</sup>fghijklmnopqrst<sup>[[2]](y)</sup>uvwxyz0123''"
    by code_simp
  have e: "insertInlineCitations ?content (Some ?cs) = spliceAgainstOriginal ?content (indexed ?cs)"
    using insertInlineCitations_against_original [OF h] by (elim conjE)
  show ?thesis
    by (intro conjI) (rule h, rule s, simp only: e r)
qed

subsection \<open>Claim C5: display numbers are the positions in the input list plus one\<close>

text \<open>
  C5. For every content and citation list, the marker spliced for the citation at zero-based
  position \<open>i\<close> of the input list carries the number \<open>i + 1\<close>, whatever citations the filter
  drops: the result is the original text with, before each offset, the markers
  \<open>numberedMarkersAt\<close> gives for it. For the two citations \<open>https://a\<close> at offset 0 and
  \<open>https://b\<close> at offset 29 and the content of the specification's example, the markers
  are numbered 1 and 2 and stand exactly at offsets 0 and 29 of the original text, all
  other characters untouched.
\<close>

theorem insertInlineCitations_numbering:
  "insertInlineCitations content (Some cs) = weaveFrom (numberedMarkersAt cs) 0 content
   \<and> insertInlineCitations ''Azure provides cloud services. Microsoft offers many solutions.''
       (Some [\<lparr>uri = ''https://a'', title = None, startIndex = Num 0, endIndex = Undefined\<rparr>,
              \<lparr>uri = ''https://b'', title = None, startIndex = Num 29, endIndex = Undefined\<rparr>])
     = citationMarker 1 ''https://a''
       @ take 29 ''Azure provides cloud services. Microsoft offers many solutions.''
       @ citationMarker 2 ''https://b''
       @ drop 29 ''Azure provides cloud services. Microsoft offers many solutions.''
   \<and> insertInlineCitations ''Azure provides cloud services. Microsoft offers many solutions.''
       (Some [\<lparr>uri = ''https://a'', title = None, startIndex = Num 0, endIndex = Undefined\<rparr>,
              \<lparr>uri = ''https://b'', title = None, startIndex = Num 29, endIndex = Undefined\<rparr>])
     = ''<sup>[[1]](https://a)</sup>Azure provides cloud services<sup>[[2]](https://b)</sup>. Microsoft offers many solutions.''"
proof -
  let ?content = "''Azure provides cloud services. Microsoft offers many solutions.''"
  let ?cs = "[\<lparr>uri = ''https://a'', title = None, startIndex = Num 0, endIndex = Undefined\<rparr>,
              \<lparr>uri = ''https://b'', title = None, startIndex = Num 29, endIndex = Undefined\<rparr>]"
  let ?out = "''<sup>[[1]](https://a)</sup>Azure provides cloud services<sup>[[2]](https://b)</sup>. Microsoft offers many solutions.''"
  have general: "insertInlineCitations content (Some cs) = weaveFrom (numberedMarkersAt cs) 0 content"
    by (simp add: insertInlineCitations_weave markersAt_indexed [abs_def])
  have run: "insertInlineCitations ?content (Some ?cs) = ?out"
    by code_simp
  have parts: "citationMarker 1 ''https://a'' @ take 29 ?content
       @ citationMarker 2 ''https://b'' @ drop 29 ?content = ?out"
    by (simp add: citationMarker_def toString.simps digitChar_def)
  have split: "insertInlineCitations ?content (Some ?cs)
      = citationMarker 1 ''https://a'' @ take 29 ?content
        @ citationMarker 2 ''https://b'' @ drop 29 ?content"
    by (rule trans [OF run parts [symmetric]])
  show ?thesis
    by (intro conjI) (rule general, rule split, rule run)
qed


subsection \<open>Claim C6: citations without a valid start offset are dropped silently\<close>

lemma validCitations_cong:
  assumes "list_all2 (\<lambda>c c'. c' = c \<or> (\<not> validStart content c \<and> \<not> validStart content c')) cs cs'"
  shows "validCitations content cs' = validCitations content cs"
proof -
  from assms have len: "length cs' = length cs"
    and nth: "\<forall>i<length cs.
        cs' ! i = cs ! i \<or> (\<not> validStart content (cs ! i) \<and> \<not> validStart content (cs' ! i))"
    by (auto simp: list_all2_conv_all_nth)
  have "filter (\<lambda>i. validStart content (cs' ! i)) [0..<length cs]
      = filter (\<lambda>i. validStart content (cs ! i)) [0..<length cs]"
  proof (rule filter_cong)
    fix i assume "i \<in> set [0..<length cs]"
    then have "i < length cs" by simp
    with nth show "validStart content (cs' ! i) = validStart content (cs ! i)" by metis
  qed simp
  moreover have "map (\<lambda>i. withIndex (cs' ! i) i) (filter (\<lambda>i. validStart content (cs ! i)) [0..<length cs])
      = map (\<lambda>i. withIndex (cs ! i) i) (filter (\<lambda>i. validStart content (cs ! i)) [0..<length cs])"
  proof (rule map_cong)
    fix i assume "i \<in> set (filter (\<lambda>i. validStart content (cs ! i)) [0..<length cs])"
    then have "i < length cs" "validStart content (cs ! i)" by simp_all
    with nth have "cs' ! i = cs ! i" by metis
    then show "withIndex (cs' ! i) i = withIndex (cs ! i) i" by simp
  qed simp
  ultimately show ?thesis
    by (simp add: validCitations_def indexed_def filter_map comp_def validStart_withIndex len)
qed

text \<open>
  C6. Markers are inserted only for the citations whose \<open>startIndex\<close> is defined and within
  \<open>0 \<le> startIndex \<le> length content\<close>: the result is the original text with the markers of
  the surviving citations only, and the survivors are exactly the citations that pass this
  test. A citation whose \<open>startIndex\<close> is undefined, null, negative or beyond the length
  is dropped without an error (the function has no failing branch) and does not alter the
  markers of the others: replacing dropped citations by any other dropped citations leaves
  the result the same, and when every citation is dropped the result is the content.
\<close>

theorem insertInlineCitations_drops_invalid:
  assumes "list_all2 (\<lambda>c c'. c' = c \<or> (\<not> validStart content c \<and> \<not> validStart content c')) cs cs'"
  shows "insertInlineCitations content (Some cs') = insertInlineCitations content (Some cs)
    \<and> insertInlineCitations content (Some cs) = spliceAgainstOriginal content (validCitations content cs)
    \<and> set (validCitations content cs) = {c \<in> set (indexed cs). validStart content c}
    \<and> (list_all (\<lambda>c. \<not> validStart content c) cs
        \<longrightarrow> insertInlineCitations content (Some cs) = content)"
proof -
  have "validCitations content cs' = validCitations content cs"
    using assms by (rule validCitations_cong)
  then have same: "insertInlineCitations content (Some cs') = insertInlineCitations content (Some cs)"
    by (simp add: insertInlineCitations_loop sortedCitations_def)
  have ref: "insertInlineCitations content (Some cs)
      = spliceAgainstOriginal content (validCitations content cs)"
    by (simp add: insertInlineCitations_weave_valid spliceAgainstOriginal_def)
  have none: "insertInlineCitations content (Some cs) = content"
    if "list_all (\<lambda>c. \<not> validStart content c) cs"
  proof -
    from that have "validCitations content cs = []"
      by (auto simp: validCitations_def indexed_def list_all_length validStart_withIndex filter_empty_conv)
    then show ?thesis by (simp add: insertInlineCitations_def)
  qed
  from same ref none show ?thesis by (simp add: validCitations_def)
qed

text \<open>
  Five citations into \<open>abc\<close>, the second, third and fourth dropped (offset 7, offset -1,
  null); replacing them by other dropped citations (undefined, offset 4, offset -5) gives
  the same text, with the markers 1 and 5 of the two survivors.
\<close>

theorem insertInlineCitations_drops_invalid_witness:
  "list_all2 (\<lambda>c c'. c' = c \<or> (\<not> validStart ''abc'' c \<and> \<not> validStart ''abc'' c'))
     [\<lparr>uri = ''u'', title = None, startIndex = Num 1, endIndex = Undefined\<rparr>,
      \<lparr>uri = ''v'', title = None, startIndex = Num 7, endIndex = Undefined\<rparr>,
      \<lparr>uri = ''w'', title = None, startIndex = Num (- 1), endIndex = Undefined\<rparr>,
      \<lparr>uri = ''x'', title = None, startIndex = Null, endIndex = Undefined\<rparr>,
      \<lparr>uri = ''y'', title = None, startIndex = Num 3, endIndex = Undefined\<rparr>]
     [\<lparr>uri = ''u'', title = None, startIndex = Num 1, endIndex = Undefined\<rparr>,
      \<lparr>uri = ''v2'', title = None, startIndex = Undefined, endIndex = Undefined\<rparr>,
      \<lparr>uri = ''w2'', title = None, startIndex = Num 4, endIndex = Num 9\<rparr>,
      \<lparr>uri = ''x2'', title = None, startIndex = Num (- 5), endIndex = Undefined\<rparr>,
      \<lparr>uri = ''y'', title = None, startIndex = Num 3, endIndex = Undefined\<rparr>]
   \<and> insertInlineCitations ''abc'' (Some
     [\<lparr>uri = ''u'', title = None, startIndex = Num 1, endIndex = Undefined\<rparr>,
      \<lparr>uri = ''v2'', title = None, startIndex = Undefined, endIndex = Undefined\<rparr>,
      \<lparr>uri = ''w2'', title = None, startIndex = Num 4, endIndex = Num 9\<rparr>,
      \<lparr>uri = ''x2'', title = None, startIndex = Num (- 5), endIndex = Undefined\<rparr>,
      \<lparr>uri = ''y'', title = None, startIndex = Num 3, endIndex = Undefined\<rparr>])
     = ''a<sup>[[1]](u)</sup>bc<sup>[[5]](y)</sup>''"
proof -
  let ?cs = "[\<lparr>uri = ''u'', title = None, startIndex = Num 1, endIndex = Undefined\<rparr>,
      \<lparr>uri = ''v'', title = None, startIndex = Num 7, endIndex = Undefined\<rparr>,
      \<lparr>uri = ''w'', title = None, startIndex = Num (- 1), endIndex = Undefined\<rparr>,
      \<lparr>uri = ''x'', title = None, startIndex = Null, endIndex = Undefined\<rparr>,
      \<lparr>uri = ''y'', title = None, startIndex = Num 3, endIndex = Undefined\<rparr>]"
  let ?cs' = "[\<lparr>uri = ''u'', title = None, startIndex = Num 1, endIndex = Undefined\<rparr>,
      \<lparr>uri = ''v2'', title = None, startIndex = Undefined, endIndex = Undefined\<rparr>,
      \<lparr>uri = ''w2'', title = None, startIndex = Num 4, endIndex = Num 9\<rparr>,
      \<lparr>uri = ''x2'', title = None, startIndex = Num (- 5), endIndex = Undefined\<rparr>,
      \<lparr>uri = ''y'', title = None, startIndex = Num 3, endIndex = Undefined\<rparr>]"
  have h: "list_all2 (\<lambda>c c'. c' = c \<or> (\<not> validStart ''abc'' c \<and> \<not> validStart ''abc'' c')) ?cs ?cs'"
    by (simp add: validStart_def)
  have run: "insertInlineCitations ''abc'' (Some ?cs) = ''a<sup>[[1]](u)</sup>bc<sup>[[5]](y)</sup>''"
    by code_simp
  have same: "insertInlineCitations ''abc'' (Some ?cs') = insertInlineCitations ''abc'' (Some ?cs)"
    using insertInlineCitations_drops_invalid [OF h] by (elim conjE)
  show ?thesis
    by (intro conjI) (rule h, rule trans [OF same run])
qed

subsection \<open>Claim C10: two citations at the same offset\<close>

lemma numberedMarkersAt_In: "numberedMarkersAt cs p = numberedMarkersIn cs p [0..<length cs]"
  by (simp add: numberedMarkersAt_def numberedMarkersIn_def)

lemma numberedMarkersIn_append:
  "numberedMarkersIn cs p (ks @ ls) = numberedMarkersIn cs p ls @ numberedMarkersIn cs p ks"
  by (simp add: numberedMarkersIn_def)

lemma numberedMarkersIn_single:
  "startIndex (cs ! i) = Num (int p) \<Longrightarrow> numberedMarkersIn cs p [i] = citationMarker (i + 1) (uri (cs ! i))"
  by (simp add: numberedMarkersIn_def)

lemma upt_split3:
  assumes "i < j" "j < n"
  shows "[0..<n] = [0..<i] @ [i] @ [Suc i..<j] @ [j] @ [Suc j..<n]"
proof -
  have "[0..<n] = [0..<i] @ [i..<n]" using assms by (metis le_add2 less_imp_le_nat less_trans upt_add_eq_append add_0 le0 le_Suc_ex)
  also have "[i..<n] = i # [Suc i..<n]" using assms by (simp add: upt_conv_Cons)
  also have "[Suc i..<n] = [Suc i..<j] @ [j..<n]" using assms by (metis Suc_leI le_Suc_ex less_imp_le_nat upt_add_eq_append)
  also have "[j..<n] = j # [Suc j..<n]" using assms by (simp add: upt_conv_Cons)
  finally show ?thesis by simp
qed

lemma weaveFrom_at:
  "weaveFrom M p s = M p @ (case s of [] \<Rightarrow> [] | ch # rest \<Rightarrow> ch # weaveFrom M (Suc p) rest)"
  by (cases s) simp_all

lemma weaveFrom_split:
  "p \<le> length s \<Longrightarrow> weaveFrom M 0 s = weaveBefore M 0 (take p s) @ weaveFrom M p (drop p s)"
  using weaveFrom_append [of M 0 "take p s" "drop p s"] by (simp add: min_def)

lemma numberedMarkersAt_block:
  assumes "i < j" and "j < length cs"
    and "startIndex (cs ! i) = Num (int p)" and "startIndex (cs ! j) = Num (int p)"
  shows "numberedMarkersAt cs p = numberedMarkersIn cs p [Suc j..<length cs]
        @ citationMarker (j + 1) (uri (cs ! j))
        @ numberedMarkersIn cs p [Suc i..<j]
        @ citationMarker (i + 1) (uri (cs ! i))
        @ numberedMarkersIn cs p [0..<i]"
  unfolding numberedMarkersAt_In upt_split3 [OF assms(1,2)] numberedMarkersIn_append
  using assms(3,4) by (simp add: numberedMarkersIn_single)

lemma insertInlineCitations_numbered:
  "insertInlineCitations content (Some cs) = weaveFrom (numberedMarkersAt cs) 0 content"
  by (simp add: insertInlineCitations_weave markersAt_indexed [abs_def])

lemma equal_offsets_in_list:
  assumes "i < j" and "j < length cs"
    and "startIndex (cs ! i) = Num (int p)" and "startIndex (cs ! j) = Num (int p)"
    and "p \<le> length content"
  shows "insertInlineCitations content (Some cs)
      = weaveBefore (numberedMarkersAt cs) 0 (take p content)
        @ numberedMarkersIn cs p [Suc j..<length cs]
        @ citationMarker (j + 1) (uri (cs ! j))
        @ numberedMarkersIn cs p [Suc i..<j]
        @ citationMarker (i + 1) (uri (cs ! i))
        @ numberedMarkersIn cs p [0..<i]
        @ (case drop p content of [] \<Rightarrow> []
           | ch # rest \<Rightarrow> ch # weaveFrom (numberedMarkersAt cs) (Suc p) rest)"
  unfolding insertInlineCitations_numbered weaveFrom_split [OF assms(5), of "numberedMarkersAt cs"]
  by (subst weaveFrom_at) (simp add: numberedMarkersAt_block [OF assms(1-4)])

lemma equal_offsets_two:
  assumes "startIndex c1 = Num (int p)" and "startIndex c2 = Num (int p)"
    and "p \<le> length content"
  shows "insertInlineCitations content (Some [c1, c2])
      = take p content @ citationMarker 2 (uri c2) @ citationMarker 1 (uri c1) @ drop p content"
proof -
  let ?M = "numberedMarkersAt [c1, c2]"
  have q: "\<And>q. ?M q = (if q = p then citationMarker 2 (uri c2) @ citationMarker 1 (uri c1) else [])"
    using assms(1,2) by (auto simp: numberedMarkersAt_def numeral_2_eq_2 upt_rec)
  have "weaveBefore ?M 0 (take p content) = weaveBefore (\<lambda>q. []) 0 (take p content)"
    using assms(3) by (intro weaveBefore_cong) (simp add: q)
  moreover have "weaveBefore (\<lambda>q. []) 0 (take p content) = take p content"
    using weaveFrom_no_markers [of 0 "take p content"] by (simp add: weaveFrom_weaveBefore)
  moreover have "weaveFrom ?M p (drop p content) = ?M p @ drop p content"
    by (rule weaveFrom_tail_empty) (simp add: q)
  ultimately show ?thesis
    unfolding insertInlineCitations_numbered weaveFrom_split [OF assms(3), of ?M] by (simp add: q)
qed

lemma numberedMarkersIn_none:
  "(\<forall>k. k \<in> set ks \<longrightarrow> startIndex (cs ! k) \<noteq> Num (int p)) \<Longrightarrow> numberedMarkersIn cs p ks = []"
  by (simp add: numberedMarkersIn_def filter_empty_conv)

text \<open>
  C10, as amended. For every content and every offset \<open>p\<close> within it: given two citations
  whose \<open>startIndex\<close> is \<open>p\<close>, \<open>insertInlineCitations\<close> on the list of the two puts both
  markers side by side at offset \<open>p\<close> of the original text, the marker of the second
  (number 2) before the marker of the first (number 1). For two such citations at
  positions \<open>i < j\<close> of any list, the marker of the later-listed one (\<open>j + 1\<close>) stands
  before the marker of the earlier-listed one (\<open>i + 1\<close>) in the block of markers at that
  offset, with between them exactly the markers of the citations listed between the two
  that have the same offset; the two markers are adjacent when no citation listed between
  them has that offset.
\<close>

theorem equal_offsets_later_first:
  assumes "p \<le> length content"
  shows "(startIndex c1 = Num (int p) \<and> startIndex c2 = Num (int p) \<longrightarrow>
      insertInlineCitations content (Some [c1, c2])
      = take p content @ citationMarker 2 (uri c2) @ citationMarker 1 (uri c1) @ drop p content)
    \<and> (i < j \<and> j < length cs
        \<and> startIndex (cs ! i) = Num (int p) \<and> startIndex (cs ! j) = Num (int p) \<longrightarrow>
      insertInlineCitations content (Some cs)
      = weaveBefore (numberedMarkersAt cs) 0 (take p content)
        @ numberedMarkersIn cs p [Suc j..<length cs]
        @ citationMarker (j + 1) (uri (cs ! j))
        @ numberedMarkersIn cs p [Suc i..<j]
        @ citationMarker (i + 1) (uri (cs ! i))
        @ numberedMarkersIn cs p [0..<i]
        @ (case drop p content of [] \<Rightarrow> []
           | ch # rest \<Rightarrow> ch # weaveFrom (numberedMarkersAt cs) (Suc p) rest))
    \<and> (i < j \<and> j < length cs
        \<and> startIndex (cs ! i) = Num (int p) \<and> startIndex (cs ! j) = Num (int p)
        \<and> (\<forall>k. i < k \<and> k < j \<longrightarrow> startIndex (cs ! k) \<noteq> Num (int p)) \<longrightarrow>
      insertInlineCitations content (Some cs)
      = weaveBefore (numberedMarkersAt cs) 0 (take p content)
        @ numberedMarkersIn cs p [Suc j..<length cs]
        @ citationMarker (j + 1) (uri (cs ! j))
        @ citationMarker (i + 1) (uri (cs ! i))
        @ numberedMarkersIn cs p [0..<i]
        @ (case drop p content of [] \<Rightarrow> []
           | ch # rest \<Rightarrow> ch # weaveFrom (numberedMarkersAt cs) (Suc p) rest))"
proof (intro conjI impI)
  assume "startIndex c1 = Num (int p) \<and> startIndex c2 = Num (int p)"
  with assms show "insertInlineCitations content (Some [c1, c2])
      = take p content @ citationMarker 2 (uri c2) @ citationMarker 1 (uri c1) @ drop p content"
    by (simp add: equal_offsets_two)
next
  assume "i < j \<and> j < length cs
        \<and> startIndex (cs ! i) = Num (int p) \<and> startIndex (cs ! j) = Num (int p)"
  with assms show "insertInlineCitations content (Some cs)
      = weaveBefore (numberedMarkersAt cs) 0 (take p content)
        @ numberedMarkersIn cs p [Suc j..<length cs]
        @ citationMarker (j + 1) (uri (cs ! j))
        @ numberedMarkersIn cs p [Suc i..<j]
        @ citationMarker (i + 1) (uri (cs ! i))
        @ numberedMarkersIn cs p [0..<i]
        @ (case drop p content of [] \<Rightarrow> []
           | ch # rest \<Rightarrow> ch # weaveFrom (numberedMarkersAt cs) (Suc p) rest)"
    using equal_offsets_in_list [of i j cs p content] by blast
next
  assume a: "i < j \<and> j < length cs
        \<and> startIndex (cs ! i) = Num (int p) \<and> startIndex (cs ! j) = Num (int p)
        \<and> (\<forall>k. i < k \<and> k < j \<longrightarrow> startIndex (cs ! k) \<noteq> Num (int p))"
  then have "numberedMarkersIn cs p [Suc i..<j] = []"
    by (intro numberedMarkersIn_none) auto
  with a assms show "insertInlineCitations content (Some cs)
      = weaveBefore (numberedMarkersAt cs) 0 (take p content)
        @ numberedMarkersIn cs p [Suc j..<length cs]
        @ citationMarker (j + 1) (uri (cs ! j))
        @ citationMarker (i + 1) (uri (cs ! i))
        @ numberedMarkersIn cs p [0..<i]
        @ (case drop p content of [] \<Rightarrow> []
           | ch # rest \<Rightarrow> ch # weaveFrom (numberedMarkersAt cs) (Suc p) rest)"
    using equal_offsets_in_list [of i j cs p content] by simp
qed

text \<open>
  Offset 1 of \<open>abc\<close>: two citations; three citations all at offset 1; and three citations
  of which the middle one is at offset 2, so that the markers 3 and 1 are adjacent.
\<close>

theorem equal_offsets_later_first_witness:
  "(1::nat) \<le> length ''abc''
   \<and> insertInlineCitations ''abc''
       (Some [\<lparr>uri = ''u'', title = None, startIndex = Num 1, endIndex = Undefined\<rparr>,
              \<lparr>uri = ''v'', title = None, startIndex = Num 1, endIndex = Undefined\<rparr>])
     = ''a<sup>[[2]](v)</sup><sup>[[1]](u)</sup>bc''
   \<and> insertInlineCitations ''abc''
       (Some [\<lparr>uri = ''u'', title = None, startIndex = Num 1, endIndex = Undefined\<rparr>,
              \<lparr>uri = ''t'', title = None, startIndex = Num 1, endIndex = Undefined\<rparr>,
              \<lparr>uri = ''v'', title = None, startIndex = Num 1, endIndex = Undefined\<rparr>])
     = ''a<sup>[[3]](v)</sup><sup>[[2]](t)</sup><sup>[[1]](u)</sup>bc''
   \<and> insertInlineCitations ''abc''
       (Some [\<lparr>uri = ''u'', title = None, startIndex = Num 1, endIndex = Undefined\<rparr>,
              \<lparr>uri = ''t'', title = None, startIndex = Num 2, endIndex = Undefined\<rparr>,
              \<lparr>uri = ''v'', title = None, startIndex = Num 1, endIndex = Undefined\<rparr>])
     = ''a<sup>[[3]](v)</sup><sup>[[1]](u)</sup>b<sup>[[2]](t)</sup>c''"
proof -
  let ?c1 = "\<lparr>uri = ''u'', title = None, startIndex = Num 1, endIndex = Undefined\<rparr>"
  let ?ct = "\<lparr>uri = ''t'', title = None, startIndex = Num 1, endIndex = Undefined\<rparr>"
  let ?cd = "\<lparr>uri = ''t'', title = None, startIndex = Num 2, endIndex = Undefined\<rparr>"
  let ?c2 = "\<lparr>uri = ''v'', title = None, startIndex = Num 1, endIndex = Undefined\<rparr>"
  have h: "(1::nat) \<le> length ''abc''" by simp
  have pre2: "startIndex ?c1 = Num (int 1) \<and> startIndex ?c2 = Num (int 1)" by simp
  have two: "insertInlineCitations ''abc'' (Some [?c1, ?c2])
      = take 1 ''abc'' @ citationMarker 2 (uri ?c2) @ citationMarker 1 (uri ?c1) @ drop 1 ''abc''"
    by (rule conjunct1 [OF equal_offsets_later_first [OF h], rule_format, OF pre2])
  have two': "take 1 ''abc'' @ citationMarker 2 (uri ?c2) @ citationMarker 1 (uri ?c1) @ drop 1 ''abc''
      = ''a<sup>[[2]](v)</sup><sup>[[1]](u)</sup>bc''"
    by (simp add: citationMarker_def toString.simps digitChar_def)
  have pre3: "(0::nat) < 2 \<and> 2 < length [?c1, ?ct, ?c2]
      \<and> startIndex ([?c1, ?ct, ?c2] ! 0) = Num (int 1)
      \<and> startIndex ([?c1, ?ct, ?c2] ! 2) = Num (int 1)"
    by simp
  have three: "insertInlineCitations ''abc'' (Some [?c1, ?ct, ?c2])
      = weaveBefore (numberedMarkersAt [?c1, ?ct, ?c2]) 0 (take 1 ''abc'')
        @ numberedMarkersIn [?c1, ?ct, ?c2] 1 [Suc 2..<length [?c1, ?ct, ?c2]]
        @ citationMarker (2 + 1) (uri ([?c1, ?ct, ?c2] ! 2))
        @ numberedMarkersIn [?c1, ?ct, ?c2] 1 [Suc 0..<2]
        @ citationMarker (0 + 1) (uri ([?c1, ?ct, ?c2] ! 0))
        @ numberedMarkersIn [?c1, ?ct, ?c2] 1 [0..<0]
        @ (case drop 1 ''abc'' of [] \<Rightarrow> []
           | ch # rest \<Rightarrow> ch # weaveFrom (numberedMarkersAt [?c1, ?ct, ?c2]) (Suc 1) rest)"
    by (rule conjunct1 [OF conjunct2 [OF equal_offsets_later_first [OF h]], rule_format, OF pre3])
  have three': "weaveBefore (numberedMarkersAt [?c1, ?ct, ?c2]) 0 (take 1 ''abc'')
        @ numberedMarkersIn [?c1, ?ct, ?c2] 1 [Suc 2..<length [?c1, ?ct, ?c2]]
        @ citationMarker (2 + 1) (uri ([?c1, ?ct, ?c2] ! 2))
        @ numberedMarkersIn [?c1, ?ct, ?c2] 1 [Suc 0..<2]
        @ citationMarker (0 + 1) (uri ([?c1, ?ct, ?c2] ! 0))
        @ numberedMarkersIn [?c1, ?ct, ?c2] 1 [0..<0]
        @ (case drop 1 ''abc'' of [] \<Rightarrow> []
           | ch # rest \<Rightarrow> ch # weaveFrom (numberedMarkersAt [?c1, ?ct, ?c2]) (Suc 1) rest)
      = ''a<sup>[[3]](v)</sup><sup>[[2]](t)</sup><sup>[[1]](u)</sup>bc''"
    by (simp add: citationMarker_def toString.simps digitChar_def numberedMarkersAt_def
        numberedMarkersIn_def upt_rec numeral_2_eq_2 numeral_3_eq_3)
  have between: "\<forall>k. 0 < k \<and> k < (2::nat) \<longrightarrow> startIndex ([?c1, ?cd, ?c2] ! k) \<noteq> Num (int 1)"
  proof (intro allI impI)
    fix k :: nat
    assume "0 < k \<and> k < 2"
    then have "k = 1" by arith
    then show "startIndex ([?c1, ?cd, ?c2] ! k) \<noteq> Num (int 1)" by simp
  qed
  have pre4: "(0::nat) < 2 \<and> 2 < length [?c1, ?cd, ?c2]
      \<and> startIndex ([?c1, ?cd, ?c2] ! 0) = Num (int 1)
      \<and> startIndex ([?c1, ?cd, ?c2] ! 2) = Num (int 1)
      \<and> (\<forall>k. 0 < k \<and> k < (2::nat) \<longrightarrow> startIndex ([?c1, ?cd, ?c2] ! k) \<noteq> Num (int 1))"
    using between by simp
  have apart: "insertInlineCitations ''abc'' (Some [?c1, ?cd, ?c2])
      = weaveBefore (numberedMarkersAt [?c1, ?cd, ?c2]) 0 (take 1 ''abc'')
        @ numberedMarkersIn [?c1, ?cd, ?c2] 1 [Suc 2..<length [?c1, ?cd, ?c2]]
        @ citationMarker (2 + 1) (uri ([?c1, ?cd, ?c2] ! 2))
        @ citationMarker (0 + 1) (uri ([?c1, ?cd, ?c2] ! 0))
        @ numberedMarkersIn [?c1, ?cd, ?c2] 1 [0..<0]
        @ (case drop 1 ''abc'' of [] \<Rightarrow> []
           | ch # rest \<Rightarrow> ch # weaveFrom (numberedMarkersAt [?c1, ?cd, ?c2]) (Suc 1) rest)"
    by (rule conjunct2 [OF conjunct2 [OF equal_offsets_later_first [OF h]], rule_format, OF pre4])
  have apart': "weaveBefore (numberedMarkersAt [?c1, ?cd, ?c2]) 0 (take 1 ''abc'')
        @ numberedMarkersIn [?c1, ?cd, ?c2] 1 [Suc 2..<length [?c1, ?cd, ?c2]]
        @ citationMarker (2 + 1) (uri ([?c1, ?cd, ?c2] ! 2))
        @ citationMarker (0 + 1) (uri ([?c1, ?cd, ?c2] ! 0))
        @ numberedMarkersIn [?c1, ?cd, ?c2] 1 [0..<0]
        @ (case drop 1 ''abc'' of [] \<Rightarrow> []
           | ch # rest \<Rightarrow> ch # weaveFrom (numberedMarkersAt [?c1, ?cd, ?c2]) (Suc 1) rest)
      = ''a<sup>[[3]](v)</sup><sup>[[1]](u)</sup>b<sup>[[2]](t)</sup>c''"
    by (simp add: citationMarker_def toString.simps digitChar_def numberedMarkersAt_def
        numberedMarkersIn_def upt_rec numeral_2_eq_2 numeral_3_eq_3)
  show ?thesis
    by (intro conjI) (rule h, rule trans [OF two two'], rule trans [OF three three'],
        rule trans [OF apart apart'])
qed

text \<open>
  C10 as stated, for every two citations with equal offsets and with no condition on the
  rest of the input, fails when a third citation with the same offset is listed between
  the two: for three citations at offset 1 of \<open>abc\<close> the markers come out as 3, 2, 1, and
  the marker of the third is not directly followed by the marker of the first.
\<close>

theorem equal_offsets_not_adjacent_counterexample:
  "startIndex \<lparr>uri = ''u'', title = None, startIndex = Num 1, endIndex = Undefined\<rparr>
     = startIndex \<lparr>uri = ''v'', title = None, startIndex = Num 1, endIndex = Undefined\<rparr>
   \<and> insertInlineCitations ''abc''
       (Some [\<lparr>uri = ''u'', title = None, startIndex = Num 1, endIndex = Undefined\<rparr>,
              \<lparr>uri = ''t'', title = None, startIndex = Num 1, endIndex = Undefined\<rparr>,
              \<lparr>uri = ''v'', title = None, startIndex = Num 1, endIndex = Undefined\<rparr>])
     = ''a<sup>[[3]](v)</sup><sup>[[2]](t)</sup><sup>[[1]](u)</sup>bc''
   \<and> \<not> sublist (citationMarker 3 ''v'' @ citationMarker 1 ''u'')
       (insertInlineCitations ''abc''
         (Some [\<lparr>uri = ''u'', title = None, startIndex = Num 1, endIndex = Undefined\<rparr>,
                \<lparr>uri = ''t'', title = None, startIndex = Num 1, endIndex = Undefined\<rparr>,
                \<lparr>uri = ''v'', title = None, startIndex = Num 1, endIndex = Undefined\<rparr>]))"
proof -
  let ?cs = "[\<lparr>uri = ''u'', title = None, startIndex = Num 1, endIndex = Undefined\<rparr>,
              \<lparr>uri = ''t'', title = None, startIndex = Num 1, endIndex = Undefined\<rparr>,
              \<lparr>uri = ''v'', title = None, startIndex = Num 1, endIndex = Undefined\<rparr>]"
  have run: "insertInlineCitations ''abc'' (Some ?cs)
      = ''a<sup>[[3]](v)</sup><sup>[[2]](t)</sup><sup>[[1]](u)</sup>bc''"
    by code_simp
  have pair: "citationMarker 3 ''v'' @ citationMarker 1 ''u'' = ''<sup>[[3]](v)</sup><sup>[[1]](u)</sup>''"
    by (simp add: citationMarker_def toString.simps digitChar_def)
  have apart: "\<not> sublist ''<sup>[[3]](v)</sup><sup>[[1]](u)</sup>''
      ''a<sup>[[3]](v)</sup><sup>[[2]](t)</sup><sup>[[1]](u)</sup>bc''"
    by (simp add: sublist_Cons_right)
  show ?thesis
    by (intro conjI) (simp, rule run, simp only: run pair, rule apart)
qed


section \<open>Properties of the Blob SAS service\<close>

subsection \<open>Auxiliary facts\<close>

lemma AppendSasTokenAsync_live:
  "\<not> disposed st \<Longrightarrow>
   AppendSasTokenAsync st env blobUri =
     (if \<not> isEnabled st \<or> blobServiceClient st = None then Inr blobUri
      else case tryBlock st env blobUri of Inr result \<Rightarrow> Inr result | Inl ex \<Rightarrow> Inr blobUri)"
  by (simp add: AppendSasTokenAsync_def split: sum.splits exn.splits)

lemma AppendSasTokenAsync_returns:
  "\<not> disposed st \<Longrightarrow> \<exists>result. AppendSasTokenAsync st env blobUri = Inr result"
  by (simp add: AppendSasTokenAsync_live split: sum.splits)

lemma AppendSasTokenAsync_returned_live:
  "AppendSasTokenAsync st env blobUri = Inr result \<Longrightarrow> \<not> disposed st"
  by (auto simp: AppendSasTokenAsync_def split: if_splits)

lemma unchanged_parse_failure:
  "\<not> disposed st \<Longrightarrow> TryCreate env blobUri = None \<Longrightarrow> AppendSasTokenAsync st env blobUri = Inr blobUri"
  by (simp add: AppendSasTokenAsync_live tryBlock_def)

lemma unchanged_host_mismatch:
  "\<not> disposed st \<Longrightarrow> TryCreate env blobUri = Some theUri \<Longrightarrow>
   \<not> equalsOrdinalIgnoreCase (Host theUri) (expectedHost st) \<Longrightarrow>
   AppendSasTokenAsync st env blobUri = Inr blobUri"
  by (simp add: AppendSasTokenAsync_live tryBlock_def)

lemma unchanged_already_signed:
  "\<not> disposed st \<Longrightarrow> TryCreate env blobUri = Some theUri \<Longrightarrow>
   containsOrdinalIgnoreCase (Query theUri) ''sig='' \<Longrightarrow>
   AppendSasTokenAsync st env blobUri = Inr blobUri"
  by (simp add: AppendSasTokenAsync_live tryBlock_def)

lemma unchanged_short_path:
  "\<not> disposed st \<Longrightarrow> TryCreate env blobUri = Some theUri \<Longrightarrow>
   length (Split2 CHR ''/'' (TrimStart CHR ''/'' (AbsolutePath theUri))) < 2 \<Longrightarrow>
   AppendSasTokenAsync st env blobUri = Inr blobUri"
  by (simp add: AppendSasTokenAsync_live tryBlock_def signBlob_def Let_def)

lemma unchanged_exception:
  "\<not> disposed st \<Longrightarrow> tryBlock st env blobUri = Inl ex \<Longrightarrow>
   AppendSasTokenAsync st env blobUri = Inr blobUri"
  by (simp add: AppendSasTokenAsync_live)

lemma unchanged_signing_exception:
  "\<not> disposed st \<Longrightarrow> TryCreate env blobUri = Some theUri \<Longrightarrow> signBlob st env blobUri theUri = Inl ex \<Longrightarrow>
   AppendSasTokenAsync st env blobUri = Inr blobUri"
  by (simp add: AppendSasTokenAsync_live tryBlock_def)

lemma unchanged_key_exception:
  "\<not> disposed st \<Longrightarrow>
   GetUserDelegationKeyAsync env (UtcNow env) (UtcNow env + sasTokenDuration st) = Inl ex \<Longrightarrow>
   AppendSasTokenAsync st env blobUri = Inr blobUri"
  by (simp add: AppendSasTokenAsync_live tryBlock_def signBlob_def GenerateUserDelegationSasAsync_def
      Let_def split: option.splits sum.splits)

lemma Split2_short_iff: "length (Split2 c s) < 2 \<longleftrightarrow> c \<notin> set s"
  by (simp add: Split2_def)

text \<open>The example service and world, evaluated.\<close>

lemmas example_defs = exampleEnv_def exampleEnvDenied_def exampleUris_def AppendSasTokenAsync_def
  tryBlock_def expectedHost_def equalsOrdinalIgnoreCase_def toUpperInvariant_def signBlob_def
  Split2_def TrimStart_def GenerateUserDelegationSasAsync_def Let_def

lemma exampleService_eq: "exampleService =
  \<lparr>blobServiceClient = Some ''https://MyAccount.blob.core.windows.net'',
   storageAccountName = Some ''MyAccount'',
   sasTokenDuration = 36000000000, isEnabled = True, disposed = False\<rparr>"
  by (simp add: exampleService_def newBlobSasService_def exampleConfiguration_def exampleEnv_def
      FromMinutes_def Let_def)

lemma example_signed:
  "AppendSasTokenAsync exampleService exampleEnv ''https://myaccount.blob.core.windows.net/docs/a.pdf''
   = Inr ''https://myaccount.blob.core.windows.net/docs/a.pdf?sv=2024-11-04&sr=b&sp=r&sig=ABC''"
  by (simp add: exampleService_eq example_defs)

lemma example_alreadySigned:
  "alreadySigned exampleEnv ''https://myaccount.blob.core.windows.net/docs/a.pdf?sv=2024-11-04&sr=b&sp=r&sig=ABC''"
  by (simp add: alreadySigned_def example_defs)

subsection \<open>Claim C2: every failure inside the call returns the input\<close>

text \<open>
  C2, as amended. On a service that has not been disposed, for every input string: the
  call returns a string and no exception leaves it; when the input does not parse as an
  absolute URI, when the path splits into fewer than two segments, when the storage
  account denies the delegation key (status 403), and when any step of the \<open>try\<close> block
  throws any exception, the result is the input string, unchanged.
\<close>

theorem fail_open_when_not_disposed:
  assumes "\<not> disposed st"
  shows "(\<exists>result. AppendSasTokenAsync st env blobUri = Inr result)
    \<and> (TryCreate env blobUri = None \<longrightarrow> AppendSasTokenAsync st env blobUri = Inr blobUri)
    \<and> (\<forall>theUri. TryCreate env blobUri = Some theUri
          \<and> length (Split2 CHR ''/'' (TrimStart CHR ''/'' (AbsolutePath theUri))) < 2
        \<longrightarrow> AppendSasTokenAsync st env blobUri = Inr blobUri)
    \<and> (GetUserDelegationKeyAsync env (UtcNow env) (UtcNow env + sasTokenDuration st)
          = Inl (RequestFailedException 403)
        \<longrightarrow> AppendSasTokenAsync st env blobUri = Inr blobUri)
    \<and> (\<forall>ex. tryBlock st env blobUri = Inl ex \<longrightarrow> AppendSasTokenAsync st env blobUri = Inr blobUri)"
  using assms AppendSasTokenAsync_returns [of st env blobUri] unchanged_parse_failure [of st env blobUri]
    unchanged_short_path [of st env blobUri] unchanged_key_exception [of st env _ blobUri]
    unchanged_exception [of st env blobUri]
  by blast

text \<open>
  The example service when the account denies the key: a malformed input and a blob URI of
  the account both come back unchanged.
\<close>

theorem fail_open_when_not_disposed_witness:
  "\<not> disposed exampleService
   \<and> TryCreate exampleEnvDenied ''not a uri'' = None
   \<and> AppendSasTokenAsync exampleService exampleEnvDenied ''not a uri'' = Inr ''not a uri''
   \<and> GetUserDelegationKeyAsync exampleEnvDenied (UtcNow exampleEnvDenied)
        (UtcNow exampleEnvDenied + sasTokenDuration exampleService) = Inl (RequestFailedException 403)
   \<and> AppendSasTokenAsync exampleService exampleEnvDenied
        ''https://myaccount.blob.core.windows.net/docs/a.pdf''
      = Inr ''https://myaccount.blob.core.windows.net/docs/a.pdf''"
proof -
  have live: "\<not> disposed exampleService" by (simp add: exampleService_eq)
  have parse: "TryCreate exampleEnvDenied ''not a uri'' = None" by (simp add: example_defs)
  have denied: "GetUserDelegationKeyAsync exampleEnvDenied (UtcNow exampleEnvDenied)
        (UtcNow exampleEnvDenied + sasTokenDuration exampleService) = Inl (RequestFailedException 403)"
    by (simp add: example_defs)
  have a: "AppendSasTokenAsync exampleService exampleEnvDenied ''not a uri'' = Inr ''not a uri''"
    using fail_open_when_not_disposed [OF live, of exampleEnvDenied "''not a uri''"] parse by blast
  have b: "AppendSasTokenAsync exampleService exampleEnvDenied
        ''https://myaccount.blob.core.windows.net/docs/a.pdf''
      = Inr ''https://myaccount.blob.core.windows.net/docs/a.pdf''"
    using fail_open_when_not_disposed [OF live, of exampleEnvDenied
        "''https://myaccount.blob.core.windows.net/docs/a.pdf''"] denied by blast
  show ?thesis
    by (intro conjI) (rule live, rule parse, rule a, rule denied, rule b)
qed

text \<open>
  C2 as stated fails on an enabled service that has been disposed: the disposal check
  stands before the \<open>try\<close> block, and for the malformed input \<open>not a uri\<close> the call throws
  \<open>ObjectDisposedException\<close> instead of returning the input.
\<close>

theorem fail_open_disposed_counterexample:
  "isEnabled (Dispose exampleService)
   \<and> TryCreate exampleEnv ''not a uri'' = None
   \<and> AppendSasTokenAsync (Dispose exampleService) exampleEnv ''not a uri'' = Inl ObjectDisposedException
   \<and> AppendSasTokenAsync (Dispose exampleService) exampleEnv ''not a uri'' \<noteq> Inr ''not a uri''"
  by (simp add: exampleService_def newBlobSasService_def exampleConfiguration_def exampleEnv_def
      exampleUris_def FromMinutes_def Let_def Dispose_def AppendSasTokenAsync_def)

subsection \<open>Claim C3: a signed result is returned unchanged\<close>

text \<open>
  C3. For every URI: when \<open>AppendSasTokenAsync\<close> has returned a result that is already
  signed (it parses, and its query contains \<open>sig=\<close>), applying \<open>AppendSasTokenAsync\<close> to
  that result returns it unchanged: the signature test returns the input before any
  signing, so \<open>rewrite (rewrite uri) = rewrite uri\<close>.
\<close>

theorem idempotent_once_signed:
  assumes "AppendSasTokenAsync st env blobUri = Inr result"
    and "alreadySigned env result"
  shows "AppendSasTokenAsync st env result = Inr result"
proof -
  from assms(1) have live: "\<not> disposed st" by (rule AppendSasTokenAsync_returned_live)
  from assms(2) obtain theUri where "TryCreate env result = Some theUri"
    and "containsOrdinalIgnoreCase (Query theUri) ''sig=''"
    by (auto simp: alreadySigned_def split: option.splits)
  with live show ?thesis by (rule unchanged_already_signed)
qed

text \<open>The example service signs a blob URI; given the signed URI it returns it as it is.\<close>

theorem idempotent_once_signed_witness:
  "AppendSasTokenAsync exampleService exampleEnv ''https://myaccount.blob.core.windows.net/docs/a.pdf''
     = Inr ''https://myaccount.blob.core.windows.net/docs/a.pdf?sv=2024-11-04&sr=b&sp=r&sig=ABC''
   \<and> alreadySigned exampleEnv
        ''https://myaccount.blob.core.windows.net/docs/a.pdf?sv=2024-11-04&sr=b&sp=r&sig=ABC''
   \<and> AppendSasTokenAsync exampleService exampleEnv
        ''https://myaccount.blob.core.windows.net/docs/a.pdf?sv=2024-11-04&sr=b&sp=r&sig=ABC''
     = Inr ''https://myaccount.blob.core.windows.net/docs/a.pdf?sv=2024-11-04&sr=b&sp=r&sig=ABC''"
  by (intro conjI) (rule example_signed, rule example_alreadySigned,
      rule idempotent_once_signed [OF example_signed example_alreadySigned])

subsection \<open>Claim C4: only the exact host of the storage account is rewritten\<close>

lemma equalsOrdinalIgnoreCase_length:
  "equalsOrdinalIgnoreCase a b \<Longrightarrow> length a = length b"
  unfolding equalsOrdinalIgnoreCase_def by (metis length_map)

text \<open>
  C4, as amended. On a service that has not been disposed, for every input that parses as
  an absolute URI: when its host is not equal, letter case ignored, to
  \<open><storageAccountName>.blob.core.windows.net\<close>, the input is returned unchanged; in
  particular a host that contains the expected host (in any letter case) with anything
  before or after it is never rewritten. A host that differs from the expected one in
  letter case only passes the test: on an enabled service, with no \<open>sig=\<close> in the query,
  the result is the one of the signing steps.
\<close>

theorem host_must_match_exactly:
  assumes "\<not> disposed st" and "TryCreate env blobUri = Some theUri"
  shows "(\<not> equalsOrdinalIgnoreCase (Host theUri) (expectedHost st)
          \<longrightarrow> AppendSasTokenAsync st env blobUri = Inr blobUri)
    \<and> (\<forall>before after.
          map toUpperInvariant (Host theUri) = before @ map toUpperInvariant (expectedHost st) @ after
          \<and> before @ after \<noteq> []
          \<longrightarrow> AppendSasTokenAsync st env blobUri = Inr blobUri)
    \<and> (isEnabled st \<and> blobServiceClient st \<noteq> None
        \<and> map toUpperInvariant (Host theUri) = map toUpperInvariant (expectedHost st)
        \<and> \<not> containsOrdinalIgnoreCase (Query theUri) ''sig=''
          \<longrightarrow> AppendSasTokenAsync st env blobUri =
              (case signBlob st env blobUri theUri of
                 Inr result \<Rightarrow> Inr result | Inl ex \<Rightarrow> Inr blobUri))"
proof (intro conjI allI impI)
  assume "\<not> equalsOrdinalIgnoreCase (Host theUri) (expectedHost st)"
  with assms show "AppendSasTokenAsync st env blobUri = Inr blobUri"
    by (rule unchanged_host_mismatch)
next
  fix before after
  assume "map toUpperInvariant (Host theUri) = before @ map toUpperInvariant (expectedHost st) @ after
      \<and> before @ after \<noteq> []"
  then have "length (map toUpperInvariant (Host theUri))
      \<noteq> length (map toUpperInvariant (expectedHost st))" by auto
  then have "length (Host theUri) \<noteq> length (expectedHost st)" by simp
  then have "\<not> equalsOrdinalIgnoreCase (Host theUri) (expectedHost st)"
    using equalsOrdinalIgnoreCase_length by blast
  with assms show "AppendSasTokenAsync st env blobUri = Inr blobUri"
    by (rule unchanged_host_mismatch)
next
  assume "isEnabled st \<and> blobServiceClient st \<noteq> None
        \<and> map toUpperInvariant (Host theUri) = map toUpperInvariant (expectedHost st)
        \<and> \<not> containsOrdinalIgnoreCase (Query theUri) ''sig=''"
  with assms show "AppendSasTokenAsync st env blobUri =
              (case signBlob st env blobUri theUri of
                 Inr result \<Rightarrow> Inr result | Inl ex \<Rightarrow> Inr blobUri)"
    by (auto simp: AppendSasTokenAsync_live tryBlock_def equalsOrdinalIgnoreCase_def)
qed

text \<open>
  The service of the account \<open>MyAccount\<close>: another account and a look-alike host come
  back unchanged; the host \<open>myaccount.blob.core.windows.net\<close>, different in letter case
  only, is signed.
\<close>

theorem host_must_match_exactly_witness:
  "\<not> disposed exampleService
   \<and> AppendSasTokenAsync exampleService exampleEnv ''https://other.blob.core.windows.net/docs/a.pdf''
     = Inr ''https://other.blob.core.windows.net/docs/a.pdf''
   \<and> AppendSasTokenAsync exampleService exampleEnv
        ''https://myaccount.blob.core.windows.net.evil.example/docs/a.pdf''
     = Inr ''https://myaccount.blob.core.windows.net.evil.example/docs/a.pdf''
   \<and> expectedHost exampleService = ''MyAccount.blob.core.windows.net''
   \<and> AppendSasTokenAsync exampleService exampleEnv ''https://myaccount.blob.core.windows.net/docs/a.pdf''
     = Inr ''https://myaccount.blob.core.windows.net/docs/a.pdf?sv=2024-11-04&sr=b&sp=r&sig=ABC''"
proof -
  let ?other = "\<lparr>Host = ''other.blob.core.windows.net'', Query = [], AbsolutePath = ''/docs/a.pdf''\<rparr>"
  let ?evil = "\<lparr>Host = ''myaccount.blob.core.windows.net.evil.example'', Query = [],
                AbsolutePath = ''/docs/a.pdf''\<rparr>"
  let ?mine = "\<lparr>Host = ''myaccount.blob.core.windows.net'', Query = [], AbsolutePath = ''/docs/a.pdf''\<rparr>"
  have live: "\<not> disposed exampleService" by (simp add: exampleService_eq)
  have p1: "TryCreate exampleEnv ''https://other.blob.core.windows.net/docs/a.pdf'' = Some ?other"
    by (simp add: exampleEnv_def exampleUris_def)
  have p2: "TryCreate exampleEnv ''https://myaccount.blob.core.windows.net.evil.example/docs/a.pdf''
      = Some ?evil"
    by (simp add: exampleEnv_def exampleUris_def)
  have p3: "TryCreate exampleEnv ''https://myaccount.blob.core.windows.net/docs/a.pdf'' = Some ?mine"
    by (simp add: exampleEnv_def exampleUris_def)
  have host: "expectedHost exampleService = ''MyAccount.blob.core.windows.net''"
    by (simp add: exampleService_eq expectedHost_def)
  have n1: "\<not> equalsOrdinalIgnoreCase (Host ?other) (expectedHost exampleService)"
    by (simp add: host equalsOrdinalIgnoreCase_def)
  have a: "AppendSasTokenAsync exampleService exampleEnv ''https://other.blob.core.windows.net/docs/a.pdf''
     = Inr ''https://other.blob.core.windows.net/docs/a.pdf''"
    using host_must_match_exactly [OF live p1] n1 by blast
  have n2: "map toUpperInvariant (Host ?evil)
      = [] @ map toUpperInvariant (expectedHost exampleService) @ ''.EVIL.EXAMPLE''
      \<and> [] @ ''.EVIL.EXAMPLE'' \<noteq> []"
    by (simp add: host toUpperInvariant_def)
  have b: "AppendSasTokenAsync exampleService exampleEnv
        ''https://myaccount.blob.core.windows.net.evil.example/docs/a.pdf''
     = Inr ''https://myaccount.blob.core.windows.net.evil.example/docs/a.pdf''"
    using host_must_match_exactly [OF live p2] n2 by blast
  have en: "isEnabled exampleService \<and> blobServiceClient exampleService \<noteq> None"
    by (simp add: exampleService_eq)
  have up: "map toUpperInvariant (Host ?mine) = map toUpperInvariant (expectedHost exampleService)"
    by (simp add: host toUpperInvariant_def)
  have nosig: "\<not> containsOrdinalIgnoreCase (Query ?mine) ''sig=''"
    by simp
  have sb: "signBlob exampleService exampleEnv ''https://myaccount.blob.core.windows.net/docs/a.pdf'' ?mine
      = Inr ''https://myaccount.blob.core.windows.net/docs/a.pdf?sv=2024-11-04&sr=b&sp=r&sig=ABC''"
    by (simp add: exampleService_eq exampleEnv_def signBlob_def Split2_def TrimStart_def
        GenerateUserDelegationSasAsync_def Let_def)
  have "AppendSasTokenAsync exampleService exampleEnv ''https://myaccount.blob.core.windows.net/docs/a.pdf''
     = (case signBlob exampleService exampleEnv ''https://myaccount.blob.core.windows.net/docs/a.pdf'' ?mine
        of Inr result \<Rightarrow> Inr result
         | Inl ex \<Rightarrow> Inr ''https://myaccount.blob.core.windows.net/docs/a.pdf'')"
    using host_must_match_exactly [OF live p3] en up nosig by blast
  then have c: "AppendSasTokenAsync exampleService exampleEnv ''https://myaccount.blob.core.windows.net/docs/a.pdf''
     = Inr ''https://myaccount.blob.core.windows.net/docs/a.pdf?sv=2024-11-04&sr=b&sp=r&sig=ABC''"
    by (simp only: sb sum.case)
  show ?thesis
    by (intro conjI) (rule live, rule a, rule b, rule host, rule c)
qed

text \<open>
  C4 as stated, for every absolute URI with another host and with no condition on the
  service, fails once the service has been disposed: the disposal check comes first, and
  a URI of another storage account makes the call throw \<open>ObjectDisposedException\<close> instead
  of returning the input.
\<close>

theorem host_mismatch_disposed_counterexample:
  "TryCreate exampleEnv ''https://other.blob.core.windows.net/docs/a.pdf''
     = Some \<lparr>Host = ''other.blob.core.windows.net'', Query = [], AbsolutePath = ''/docs/a.pdf''\<rparr>
   \<and> \<not> equalsOrdinalIgnoreCase ''other.blob.core.windows.net'' (expectedHost (Dispose exampleService))
   \<and> AppendSasTokenAsync (Dispose exampleService) exampleEnv
        ''https://other.blob.core.windows.net/docs/a.pdf'' = Inl ObjectDisposedException
   \<and> AppendSasTokenAsync (Dispose exampleService) exampleEnv
        ''https://other.blob.core.windows.net/docs/a.pdf''
      \<noteq> Inr ''https://other.blob.core.windows.net/docs/a.pdf''"
  by (simp add: exampleService_eq exampleEnv_def exampleUris_def Dispose_def AppendSasTokenAsync_def
      expectedHost_def equalsOrdinalIgnoreCase_def)

subsection \<open>Claim C8: a disposed service throws\<close>

text \<open>
  C8. Once \<open>Dispose\<close> has been called, every later call of \<open>AppendSasTokenAsync\<close> throws
  \<open>ObjectDisposedException\<close>, for every input and whatever the state of the service was,
  however many times \<open>Dispose\<close> is called again (no other member changes the fields): the
  check stands before the \<open>try\<close> block, so the input is not returned.
\<close>

theorem disposed_service_throws:
  "AppendSasTokenAsync ((Dispose ^^ n) (Dispose st)) env blobUri = Inl ObjectDisposedException
   \<and> AppendSasTokenAsync ((Dispose ^^ n) (Dispose st)) env blobUri \<noteq> Inr blobUri"
proof -
  have "disposed (Dispose s)" for s by (simp add: Dispose_def)
  then have "disposed ((Dispose ^^ n) (Dispose st))" by (cases n) simp_all
  then show ?thesis by (simp add: AppendSasTokenAsync_def)
qed


text \<open>
  The example service signs a blob URI; after \<open>Dispose\<close>, called once or three times, the
  same call throws.
\<close>

theorem disposed_service_throws_witness:
  "AppendSasTokenAsync exampleService exampleEnv ''https://myaccount.blob.core.windows.net/docs/a.pdf''
     = Inr ''https://myaccount.blob.core.windows.net/docs/a.pdf?sv=2024-11-04&sr=b&sp=r&sig=ABC''
   \<and> AppendSasTokenAsync ((Dispose ^^ 0) (Dispose exampleService)) exampleEnv
        ''https://myaccount.blob.core.windows.net/docs/a.pdf'' = Inl ObjectDisposedException
   \<and> AppendSasTokenAsync ((Dispose ^^ 2) (Dispose exampleService)) exampleEnv
        ''https://myaccount.blob.core.windows.net/docs/a.pdf'' = Inl ObjectDisposedException"
  by (intro conjI) (rule example_signed,
      rule conjunct1 [OF disposed_service_throws], rule conjunct1 [OF disposed_service_throws])

subsection \<open>Claim C7: what a rewritten URI carries\<close>








subsection \<open>Claim C9: the signature test is a substring search\<close>

lemma containsOrdinalIgnoreCase_infix:
  "map toUpperInvariant s = before @ map toUpperInvariant v @ after \<Longrightarrow> containsOrdinalIgnoreCase s v"
proof (induction before arbitrary: s)
  case Nil
  then have "take (length v) (map toUpperInvariant s) = map toUpperInvariant v" by simp
  then have eq: "equalsOrdinalIgnoreCase (take (length v) s) v"
    by (simp add: equalsOrdinalIgnoreCase_def take_map)
  show ?case
  proof (cases s)
    case Nil
    with eq show ?thesis by (simp add: equalsOrdinalIgnoreCase_def)
  next
    case (Cons c s')
    with eq show ?thesis by simp
  qed
next
  case (Cons x before)
  then obtain c s' where s: "s = c # s'" "map toUpperInvariant s' = before @ map toUpperInvariant v @ after"
    by (cases s) auto
  with Cons.IH show ?case by simp
qed

text \<open>
  C9. There is a URI on the configured storage account with no query parameter named
  \<open>sig\<close> (its query is \<open>?resig=1\<close>), which the signing steps would sign, and which
  \<open>AppendSasTokenAsync\<close> returns unchanged. The test is a search for \<open>sig=\<close>, letter case
  ignored, anywhere in the query string: every URI whose query contains it, inside a name
  or a value as well, is never rewritten; the call returns it unchanged (or throws, on a
  disposed service).
\<close>

theorem sig_substring_counts_as_signed:
  "(\<exists>st env blobUri theUri result.
       \<not> disposed st \<and> isEnabled st \<and> TryCreate env blobUri = Some theUri
       \<and> equalsOrdinalIgnoreCase (Host theUri) (expectedHost st)
       \<and> Query theUri = ''?resig=1''
       \<and> ''sig'' \<notin> set (queryParameterNames (Query theUri))
       \<and> signBlob st env blobUri theUri = Inr result \<and> result \<noteq> blobUri
       \<and> AppendSasTokenAsync st env blobUri = Inr blobUri)
   \<and> (\<forall>st env blobUri theUri before after.
         TryCreate env blobUri = Some theUri
         \<and> map toUpperInvariant (Query theUri) = before @ ''SIG='' @ after
       \<longrightarrow> AppendSasTokenAsync st env blobUri
           = (if disposed st then Inl ObjectDisposedException else Inr blobUri))"
proof (intro conjI allI impI)
  let ?u = "''https://myaccount.blob.core.windows.net/docs/a.pdf?resig=1''"
  let ?p = "\<lparr>Host = ''myaccount.blob.core.windows.net'', Query = ''?resig=1'',
        AbsolutePath = ''/docs/a.pdf''\<rparr>"
  let ?r = "''https://myaccount.blob.core.windows.net/docs/a.pdf?sv=2024-11-04&sr=b&sp=r&sig=ABC''"
  have f1: "\<not> disposed exampleService" and f2: "isEnabled exampleService"
    by (simp_all add: exampleService_eq)
  have f3: "TryCreate exampleEnv ?u = Some ?p"
    by (simp add: exampleEnv_def exampleUris_def)
  have f4: "equalsOrdinalIgnoreCase (Host ?p) (expectedHost exampleService)"
    by code_simp
  have f5: "Query ?p = ''?resig=1''" by simp
  have f6: "''sig'' \<notin> set (queryParameterNames (Query ?p))"
    by (simp add: queryParameterNames_def TrimStart_def)
  have f7: "signBlob exampleService exampleEnv ?u ?p = Inr ?r"
    by code_simp
  have f8: "?r \<noteq> ?u"
    by simp
  have f9: "AppendSasTokenAsync exampleService exampleEnv ?u = Inr ?u"
    by code_simp
  show "\<exists>st env blobUri theUri result.
       \<not> disposed st \<and> isEnabled st \<and> TryCreate env blobUri = Some theUri
       \<and> equalsOrdinalIgnoreCase (Host theUri) (expectedHost st)
       \<and> Query theUri = ''?resig=1''
       \<and> ''sig'' \<notin> set (queryParameterNames (Query theUri))
       \<and> signBlob st env blobUri theUri = Inr result \<and> result \<noteq> blobUri
       \<and> AppendSasTokenAsync st env blobUri = Inr blobUri"
    by (rule exI [of _ exampleService], rule exI [of _ exampleEnv], rule exI [of _ ?u],
        rule exI [of _ ?p], rule exI [of _ ?r], intro conjI)
       (rule f1, rule f2, rule f3, rule f4, rule f5, rule f6, rule f7, rule f8, rule f9)
next
  fix st :: BlobSasService and env :: Env and blobUri :: string and theUri :: Uri
    and before after :: string
  assume a: "TryCreate env blobUri = Some theUri
         \<and> map toUpperInvariant (Query theUri) = before @ ''SIG='' @ after"
  have "map toUpperInvariant ''sig='' = ''SIG=''" by (simp add: toUpperInvariant_def)
  with a have sig: "containsOrdinalIgnoreCase (Query theUri) ''sig=''"
    using containsOrdinalIgnoreCase_infix [of "Query theUri" before "''sig=''" after] by simp
  show "AppendSasTokenAsync st env blobUri
      = (if disposed st then Inl ObjectDisposedException else Inr blobUri)"
  proof (cases "disposed st")
    case True
    then show ?thesis by (simp add: AppendSasTokenAsync_def)
  next
    case False
    from a have "TryCreate env blobUri = Some theUri" by simp
    with False have "AppendSasTokenAsync st env blobUri = Inr blobUri"
      using sig by (rule unchanged_already_signed)
    with False show ?thesis by simp
  qed
qed

text \<open>The rule at the query \<open>?resig=1\<close> of the example.\<close>

theorem sig_substring_counts_as_signed_witness:
  "\<not> disposed exampleService
   \<and> TryCreate exampleEnv ''https://myaccount.blob.core.windows.net/docs/a.pdf?resig=1''
      = Some \<lparr>Host = ''myaccount.blob.core.windows.net'', Query = ''?resig=1'',
               AbsolutePath = ''/docs/a.pdf''\<rparr>
   \<and> map toUpperInvariant ''?resig=1'' = ''?RE'' @ ''SIG='' @ ''1''
   \<and> AppendSasTokenAsync exampleService exampleEnv
        ''https://myaccount.blob.core.windows.net/docs/a.pdf?resig=1''
     = Inr ''https://myaccount.blob.core.windows.net/docs/a.pdf?resig=1''"
proof -
  let ?u = "''https://myaccount.blob.core.windows.net/docs/a.pdf?resig=1''"
  let ?p = "\<lparr>Host = ''myaccount.blob.core.windows.net'', Query = ''?resig=1'',
        AbsolutePath = ''/docs/a.pdf''\<rparr>"
  have live: "\<not> disposed exampleService" by (simp add: exampleService_eq)
  have parse: "TryCreate exampleEnv ?u = Some ?p" by (simp add: example_defs)
  have up: "map toUpperInvariant ''?resig=1'' = ''?RE'' @ ''SIG='' @ ''1''"
    by (simp add: toUpperInvariant_def)
  have pre: "TryCreate exampleEnv ?u = Some ?p
         \<and> map toUpperInvariant (Query ?p) = ''?RE'' @ ''SIG='' @ ''1''"
    using parse up by simp
  have "AppendSasTokenAsync exampleService exampleEnv ?u
      = (if disposed exampleService then Inl ObjectDisposedException else Inr ?u)"
    by (rule conjunct2 [OF sig_substring_counts_as_signed, rule_format, OF pre])
  with live have r: "AppendSasTokenAsync exampleService exampleEnv ?u = Inr ?u"
    by simp
  show ?thesis
    by (intro conjI) (rule live, rule parse, rule up, rule r)
qed

end
